theory Spec2Isabelle
  imports Complex_Main "HOL-Library.Log_Nat"
begin

section \<open>Pricing and settlement engine of the Slack prediction market\<close>

text \<open>
  The embedding follows the PostgreSQL-backed bot: \<^verbatim>\<open>src/index.js\<close> and its
  extension with leaderboard statistics, the first program of
  \<^verbatim>\<open>src/unnamed/part_000\<close> (lines 1-1185). The two share \<^verbatim>\<open>calculateStake\<close>,
  \<^verbatim>\<open>updateMarketProbability\<close> and \<^verbatim>\<open>placeBet\<close> verbatim; the extension adds
  the columns \<^verbatim>\<open>total_profit\<close>, \<^verbatim>\<open>biggest_win\<close>, \<^verbatim>\<open>prediction_streak\<close>,
  \<^verbatim>\<open>best_streak\<close> and \<^verbatim>\<open>markets_created\<close> to a user row. The in-memory bot (the
  second program of \<^verbatim>\<open>part_000\<close>, from line 1186) is embedded only as far as its
  probability computation goes.

  Conventions.
  \<^item> Stakes, bankrolls and counters are \<^typ>\<open>int\<close>: they are integers far below
    \<open>2 ^ 53\<close>, where JavaScript numbers are exact. Probabilities are rationals
    (\<^typ>\<open>rat\<close>), and \<^verbatim>\<open>NaN\<close> (which only arises from reading an array out of
    range) is \<open>None\<close>.
  \<^item> The base model computes with probabilities exactly and stores them as they are
    written. The functions with the suffix \<open>_with\<close> are the same code with two
    parameters, the rounding of a floating-point operation and the rounding of a write
    to a \<^verbatim>\<open>DECIMAL(5,4)\<close> column: with \<open>fl\<close> (IEEE 754 binary64) and \<open>decimal4\<close>
    they compute what the program computes, with the identity they are the base model.
  \<^item> Instants (\<^verbatim>\<open>Date\<close>) are milliseconds since the epoch, an \<^typ>\<open>int\<close>; the
    clock reading \<^verbatim>\<open>new Date()\<close> is the parameter \<open>now\<close>.
  \<^item> A table with a primary key is a map from the key to the row; the \<^verbatim>\<open>bets\<close>
    table is the list of its rows.
  \<^item> The columns of a \<^verbatim>\<open>bets\<close> row carry the prefix \<open>bet_\<close>, and
    \<^verbatim>\<open>markets.probability\<close> is \<open>market_probability\<close>, so that the parameters
    and locals of the source keep their names.
  \<^item> A thrown \<^verbatim>\<open>Error\<close> (or the error reply of a command handler) is a value of
    \<open>error\<close>; every operation returns its outcome together with the store it leaves.
\<close>

subsection \<open>Data model\<close>

record user =
  bankroll :: int
  total_staked :: int
  bets_placed :: int
  bets_won :: int
  accuracy :: rat
  total_profit :: int
  biggest_win :: int
  prediction_streak :: int
  best_streak :: int
  markets_created :: int

record market =
  question :: string
  creator :: string
  deadline :: int
  resolved :: bool
  resolution :: "bool option"
  resolved_at :: "int option"
  market_probability :: rat
  total_stake :: int
  active :: bool

record bet =
  bet_market_id :: string
  bet_user_id :: string
  bet_stake :: int
  bet_probability :: rat

record state =
  users :: "string \<rightharpoonup> user"
  markets :: "string \<rightharpoonup> market"
  bets :: "bet list"

text \<open>
  The messages of the source, by constructor: "Probability must be between 0 and 1",
  "Market not found or inactive" / "Market not found", "Market has expired",
  "Insufficient bankroll. Available: $n", "Deadline must be in the future",
  a primary-key violation of \<^verbatim>\<open>INSERT INTO markets\<close>, "Market already resolved",
  "No bets placed on this market", and a query that throws.
\<close>

datatype error =
    InvalidProbability
  | MarketNotFound
  | MarketExpired
  | InsufficientBankroll int
  | InvalidDeadline
  | DuplicateId
  | AlreadyResolved
  | NoParticipants
  | PersistenceFailure

definition initial_state :: state where
  "initial_state = \<lparr>users = Map.empty, markets = Map.empty, bets = []\<rparr>"

subsection \<open>Pricing model\<close>

text \<open>\<^verbatim>\<open>Math.min(Math.max(desired_amount, 1), 100)\<close>\<close>

definition calculateStake :: "int \<Rightarrow> int" where
  "calculateStake desired_amount = min (max desired_amount 1) 100"

text \<open>
  \<^verbatim>\<open>current_stakes.reduce((sum, stake) => sum + stake, 0)\<close>
\<close>

definition stake_total :: "int list \<Rightarrow> int" where
  "stake_total current_stakes = foldl (\<lambda>sum stake. sum + stake) 0 current_stakes"

text \<open>
  \<^verbatim>\<open>current_stakes.reduce((sum, stake, i) => sum + stake * current_probs[i], 0)\<close>:
  the two arrays are walked in step; \<^verbatim>\<open>current_probs[i]\<close> beyond the end of
  \<^verbatim>\<open>current_probs\<close> is \<^verbatim>\<open>undefined\<close>, the product is \<^verbatim>\<open>NaN\<close>, and \<^verbatim>\<open>NaN\<close>
  stays in the accumulator.
\<close>

fun reduce_weighted :: "rat option \<Rightarrow> int list \<Rightarrow> rat list \<Rightarrow> rat option" where
  "reduce_weighted acc [] current_probs = acc"
| "reduce_weighted acc (stake # current_stakes) [] =
     reduce_weighted None current_stakes []"
| "reduce_weighted acc (stake # current_stakes) (p # current_probs) =
     reduce_weighted (map_option (\<lambda>a. a + of_int stake * p) acc) current_stakes current_probs"

definition updateMarketProbability ::
  "int list \<Rightarrow> rat list \<Rightarrow> int \<Rightarrow> rat \<Rightarrow> int \<Rightarrow> rat \<Rightarrow> rat option" where
  "updateMarketProbability current_stakes current_probs new_stake new_prob old_stake old_prob =
     (let current_total = stake_total current_stakes in
      if current_total = 0 then Some new_prob
      else
        let new_total = current_total - old_stake + new_stake;
            weighted_sum =
              map_option (\<lambda>w. w - of_int old_stake * old_prob + of_int new_stake * new_prob)
                (reduce_weighted (Some 0) current_stakes current_probs)
        in if new_total = 0 then Some (1 / 2)
           else map_option (\<lambda>w. w / of_int new_total) weighted_sum)"



subsection \<open>Market ledger\<close>

text \<open>
  \<^verbatim>\<open>getUser\<close> selects the row and, when there is none, inserts and returns the default
  row (bankroll 1000, accuracy 0.5, everything else 0).
\<close>

definition new_user :: user where
  "new_user = \<lparr>bankroll = 1000, total_staked = 0, bets_placed = 0, bets_won = 0,
                accuracy = 1 / 2, total_profit = 0, biggest_win = 0,
                prediction_streak = 0, best_streak = 0, markets_created = 0\<rparr>"

definition getUser :: "state \<Rightarrow> string \<Rightarrow> user \<times> state" where
  "getUser st userId =
     (case users st userId of
        Some row \<Rightarrow> (row, st)
      | None \<Rightarrow> (new_user, st\<lparr>users := (users st)(userId \<mapsto> new_user)\<rparr>))"

text \<open>
  \<^verbatim>\<open>UPDATE users SET ... WHERE id = $1\<close>: the assignments are the function
  \<open>updates\<close>; no row with that id, no change. \<^verbatim>\<open>updateMarket\<close> likewise.
\<close>

definition updateUser :: "state \<Rightarrow> string \<Rightarrow> (user \<Rightarrow> user) \<Rightarrow> state" where
  "updateUser st userId updates =
     (case users st userId of
        None \<Rightarrow> st
      | Some row \<Rightarrow> st\<lparr>users := (users st)(userId \<mapsto> updates row)\<rparr>)"

definition getMarket :: "state \<Rightarrow> string \<Rightarrow> market option" where
  "getMarket st marketId = markets st marketId"

text \<open>
  \<^verbatim>\<open>createMarket\<close> inserts the row (\<^verbatim>\<open>resolved\<close>, \<^verbatim>\<open>resolution\<close> and
  \<^verbatim>\<open>resolved_at\<close> take the column defaults) and fails on the primary key when the id
  is taken; it then increments the creator's \<^verbatim>\<open>markets_created\<close>, if the creator has a
  row.
\<close>

definition createMarket ::
  "state \<Rightarrow> string \<Rightarrow> string \<Rightarrow> string \<Rightarrow> int \<Rightarrow> rat \<Rightarrow> int \<Rightarrow> bool \<Rightarrow> error + state" where
  "createMarket st marketId q c d p totalStake a =
     (case markets st marketId of
        Some _ \<Rightarrow> Inl DuplicateId
      | None \<Rightarrow>
          (let row = \<lparr>question = q, creator = c, deadline = d, resolved = False,
                      resolution = None, resolved_at = None, market_probability = p,
                      total_stake = totalStake, active = a\<rparr>;
               st1 = st\<lparr>markets := (markets st)(marketId \<mapsto> row)\<rparr>
           in Inr (updateUser st1 c (\<lambda>u. u\<lparr>markets_created := markets_created u + 1\<rparr>))))"

definition updateMarket :: "state \<Rightarrow> string \<Rightarrow> (market \<Rightarrow> market) \<Rightarrow> state" where
  "updateMarket st marketId updates =
     (case markets st marketId of
        None \<Rightarrow> st
      | Some row \<Rightarrow> st\<lparr>markets := (markets st)(marketId \<mapsto> updates row)\<rparr>)"

definition getMarketBets :: "state \<Rightarrow> string \<Rightarrow> bet list" where
  "getMarketBets st marketId = filter (\<lambda>b. bet_market_id b = marketId) (bets st)"

text \<open>\<^verbatim>\<open>result.rows.length > 0 ? result.rows[0] : null\<close>\<close>

definition getUserBet :: "state \<Rightarrow> string \<Rightarrow> string \<Rightarrow> bet option" where
  "getUserBet st marketId userId =
     (case filter (\<lambda>b. bet_market_id b = marketId \<and> bet_user_id b = userId) (bets st) of
        [] \<Rightarrow> None
      | b # _ \<Rightarrow> Some b)"

text \<open>
  \<^verbatim>\<open>INSERT ... ON CONFLICT (market_id, user_id) DO UPDATE SET stake, probability\<close>: the
  row of that market and user is overwritten where it stands; without one, a row is
  appended. The argument \<open>p\<close> is the value the column holds after the write; what a
  \<^verbatim>\<open>DECIMAL(5,4)\<close> column makes of a number is applied by the caller
  (\<open>placeBet_with\<close> below), and likewise for \<^verbatim>\<open>updateMarket\<close>.
\<close>

definition overwrite :: "string \<Rightarrow> string \<Rightarrow> int \<Rightarrow> rat \<Rightarrow> bet \<Rightarrow> bet" where
  "overwrite marketId userId s p b =
     (if bet_market_id b = marketId \<and> bet_user_id b = userId
      then b\<lparr>bet_stake := s, bet_probability := p\<rparr> else b)"

definition upsertBet :: "state \<Rightarrow> string \<Rightarrow> string \<Rightarrow> int \<Rightarrow> rat \<Rightarrow> state" where
  "upsertBet st marketId userId s p =
     (if list_ex (\<lambda>b. bet_market_id b = marketId \<and> bet_user_id b = userId) (bets st)
      then st\<lparr>bets := map (overwrite marketId userId s p) (bets st)\<rparr>
      else st\<lparr>bets := bets st @ [\<lparr>bet_market_id = marketId, bet_user_id = userId,
                                  bet_stake = s, bet_probability = p\<rparr>]\<rparr>)"

subsection \<open>Bet placement\<close>

record placed =
  stake_placed :: int
  new_market_probability :: rat
  was_capped :: bool
  placed_user :: user
  placed_market :: "market option"

text \<open>
  \<^verbatim>\<open>placeBet(market_id, user_id, desired_amount, probability)\<close>, check by check. The
  three writes between \<^verbatim>\<open>BEGIN\<close> and \<^verbatim>\<open>COMMIT\<close> are taken to succeed; the
  insert of \<^verbatim>\<open>getUser\<close> happens before \<^verbatim>\<open>BEGIN\<close> and stays when the call throws.
  The two arrays handed to \<^verbatim>\<open>updateMarketProbability\<close> are maps of the same
  \<^verbatim>\<open>other_bets\<close>, so its result is a number (lemma \<open>updateMarketProbability_parallel\<close>);
  the \<open>None\<close> branch below is there for totality only and is never taken
  (lemma \<open>placeBet_no_persistence_failure\<close>).
\<close>

definition placeBet ::
  "int \<Rightarrow> state \<Rightarrow> string \<Rightarrow> string \<Rightarrow> int \<Rightarrow> rat \<Rightarrow> (error + placed) \<times> state" where
  "placeBet now st market_id user_id desired_amount probability =
     (if probability < 0 \<or> probability > 1 then (Inl InvalidProbability, st)
      else case getMarket st market_id of
        None \<Rightarrow> (Inl MarketNotFound, st)
      | Some market \<Rightarrow>
          if \<not> active market then (Inl MarketNotFound, st)
          else if now > deadline market then (Inl MarketExpired, st)
          else
            let stake = calculateStake desired_amount;
                (user, st1) = getUser st user_id;
                old_bet = getUserBet st1 market_id user_id;
                available_bankroll = bankroll user - total_staked user
                  + (case old_bet of Some b \<Rightarrow> bet_stake b | None \<Rightarrow> 0)
            in if stake > available_bankroll
               then (Inl (InsufficientBankroll available_bankroll), st1)
               else
                 let all_bets = getMarketBets st1 market_id;
                     other_bets = filter (\<lambda>bet. bet_user_id bet \<noteq> user_id) all_bets;
                     current_stakes = map bet_stake other_bets;
                     current_probs = map bet_probability other_bets
                 in (case updateMarketProbability current_stakes current_probs stake probability 0 0 of
                      None \<Rightarrow> (Inl PersistenceFailure, st1)
                    | Some new_prob \<Rightarrow>
                        let old_stake = (case old_bet of Some b \<Rightarrow> bet_stake b | None \<Rightarrow> 0);
                            new_total_stake = total_stake market - old_stake + stake;
                            st2 = upsertBet st1 market_id user_id stake probability;
                            st3 = updateMarket st2 market_id
                                    (\<lambda>row. row\<lparr>market_probability := new_prob,
                                                total_stake := new_total_stake\<rparr>);
                            net_stake_change = stake - old_stake;
                            st4 = updateUser st3 user_id
                                    (\<lambda>row. row\<lparr>total_staked := total_staked user + net_stake_change\<rparr>)
                        in (Inr \<lparr>stake_placed = stake, new_market_probability = new_prob,
                                  was_capped = (stake < desired_amount),
                                  placed_user = fst (getUser st4 user_id),
                                  placed_market = getMarket st4 market_id\<rparr>,
                            snd (getUser st4 user_id))))"

subsection \<open>Resolution and settlement\<close>

text \<open>
  The body of one callback of \<^verbatim>\<open>bets.map(async (bet) => ...)\<close> in the resolve branch
  of \<^verbatim>\<open>/predict\<close>:
  \<^verbatim>\<open>accuracy = outcome ? p : (1 - p)\<close>, \<^verbatim>\<open>payout = Math.floor(bet.stake * (1 + accuracy))\<close>,
  \<^verbatim>\<open>wasCorrect = (outcome && p > 0.5) || (!outcome && p < 0.5)\<close>.
\<close>

definition bet_accuracy :: "bool \<Rightarrow> bet \<Rightarrow> rat" where
  "bet_accuracy outcome bet = (if outcome then bet_probability bet else 1 - bet_probability bet)"

definition payout :: "bool \<Rightarrow> bet \<Rightarrow> int" where
  "payout outcome bet = \<lfloor>of_int (bet_stake bet) * (1 + bet_accuracy outcome bet)\<rfloor>"

definition wasCorrect :: "bool \<Rightarrow> bet \<Rightarrow> bool" where
  "wasCorrect outcome bet =
     ((outcome \<and> bet_probability bet > 1 / 2) \<or> (\<not> outcome \<and> bet_probability bet < 1 / 2))"

text \<open>
  The assignments of the callback's \<^verbatim>\<open>updateUser\<close>, computed from the row \<open>user\<close> that
  \<^verbatim>\<open>getUser\<close> returned and written over the stored \<open>row\<close>. A row of the migrated
  table has the column \<^verbatim>\<open>total_profit\<close>, so the guard
  \<^verbatim>\<open>user.total_profit !== undefined\<close> of the four statistic columns holds;
  \<^verbatim>\<open>src/index.js\<close> writes the first five columns only.
\<close>

definition settle_user :: "bool \<Rightarrow> bet \<Rightarrow> user \<Rightarrow> user \<Rightarrow> user" where
  "settle_user outcome bet user row =
     (let profit = payout outcome bet - bet_stake bet;
          newBetsWon = bets_won user + (if wasCorrect outcome bet then 1 else 0);
          newBetsPlaced = bets_placed user + 1;
          newAccuracy = (if newBetsPlaced > 0 then of_int newBetsWon / of_int newBetsPlaced else 1 / 2);
          newStreak = (if wasCorrect outcome bet then prediction_streak user + 1 else 0);
          newBestStreak = max (best_streak user) newStreak
      in row\<lparr>bankroll := bankroll user + payout outcome bet,
              total_staked := total_staked user - bet_stake bet,
              bets_placed := newBetsPlaced,
              bets_won := newBetsWon,
              accuracy := newAccuracy,
              total_profit := total_profit user + profit,
              biggest_win := max (biggest_win user) (payout outcome bet),
              prediction_streak := newStreak,
              best_streak := newBestStreak\<rparr>)"

text \<open>
  The queries of the resolve branch that the fault model can make throw: the
  \<^verbatim>\<open>UPDATE users\<close> of one participant, and the final \<^verbatim>\<open>UPDATE markets\<close>.
\<close>

datatype query = UpdateUser string | UpdateMarket string

definition pay_bet :: "(query \<Rightarrow> bool) \<Rightarrow> bool \<Rightarrow> state \<Rightarrow> bet \<Rightarrow> state" where
  "pay_bet fails outcome st bet =
     (let (user, st1) = getUser st (bet_user_id bet)
      in if fails (UpdateUser (bet_user_id bet)) then st1
         else updateUser st1 (bet_user_id bet) (settle_user outcome bet user))"

text \<open>
  The resolve branch of \<^verbatim>\<open>/predict\<close> from its \<^verbatim>\<open>try\<close> on (the specification's
  \<^verbatim>\<open>resolveMarket\<close>). Every callback runs to its end whether or not another one
  throws (\<^verbatim>\<open>Promise.all\<close> rejects, it does not cancel), and the callbacks touch the
  rows of different users (\<^verbatim>\<open>UNIQUE(market_id, user_id)\<close>), so the store they leave
  is that of running them one after the other. When one has thrown, the handler
  replies with the error and \<^verbatim>\<open>updateMarket\<close> is not reached.
\<close>

definition predict_resolve ::
  "(query \<Rightarrow> bool) \<Rightarrow> int \<Rightarrow> state \<Rightarrow> string \<Rightarrow> bool \<Rightarrow> (error + (string \<times> int \<times> rat) list) \<times> state" where
  "predict_resolve fails now st marketId outcome =
     (case getMarket st marketId of
        None \<Rightarrow> (Inl MarketNotFound, st)
      | Some market \<Rightarrow>
          if resolved market then (Inl AlreadyResolved, st)
          else
            let market_bets = getMarketBets st marketId
            in if length market_bets = 0 then (Inl NoParticipants, st)
               else
                 let st1 = foldl (pay_bet fails outcome) st market_bets
                 in if list_ex (\<lambda>bet. fails (UpdateUser (bet_user_id bet))) market_bets
                    then (Inl PersistenceFailure, st1)
                    else if fails (UpdateMarket marketId) then (Inl PersistenceFailure, st1)
                    else (Inr (map (\<lambda>bet. (bet_user_id bet, payout outcome bet,
                                            bet_accuracy outcome bet)) market_bets),
                          updateMarket st1 marketId
                            (\<lambda>row. row\<lparr>resolved := True, resolution := Some outcome,
                                        resolved_at := Some now\<rparr>)))"

subsection \<open>Market creation\<close>

text \<open>
  The create branch of \<^verbatim>\<open>/predict\<close> from its \<^verbatim>\<open>try\<close> on (the specification's
  \<^verbatim>\<open>createMarket(question, creator, deadline)\<close>): \<open>parsed_deadline\<close> is the instant
  \<^verbatim>\<open>new Date(parsed.deadline)\<close> and \<open>marketId\<close> the string
  \<^verbatim>\<open>market_${Date.now()}\<close>.
\<close>

definition predict_create ::
  "int \<Rightarrow> state \<Rightarrow> string \<Rightarrow> string \<Rightarrow> string \<Rightarrow> int \<Rightarrow> (error + string) \<times> state" where
  "predict_create now st marketId parsed_question command_user_id parsed_deadline =
     (if parsed_deadline < now then (Inl InvalidDeadline, st)
      else case createMarket st marketId parsed_question command_user_id parsed_deadline
                  (1 / 2) 0 True of
             Inl e \<Rightarrow> (Inl e, st)
           | Inr st1 \<Rightarrow> (Inr marketId, st1))"

subsection \<open>The other commands that write\<close>

text \<open>
  \<^verbatim>\<open>/predict stats\<close> reads the caller's row with \<^verbatim>\<open>getUser\<close>, which inserts it when
  it is missing. The admin commands \<^verbatim>\<open>resetstats\<close> and \<^verbatim>\<open>fixstats\<close> of the
  leaderboard variant overwrite columns of the admin's own row.
\<close>

definition predict_stats :: "state \<Rightarrow> string \<Rightarrow> user \<times> state" where
  "predict_stats st command_user_id = getUser st command_user_id"

definition predict_resetstats :: "state \<Rightarrow> string \<Rightarrow> state" where
  "predict_resetstats st userId =
     updateUser st userId
       (\<lambda>row. row\<lparr>bankroll := 1000, total_staked := 0, bets_placed := 0, bets_won := 0,
                   accuracy := 1 / 2, total_profit := 0, biggest_win := 0,
                   prediction_streak := 0, best_streak := 0, markets_created := 0\<rparr>)"

definition predict_fixstats :: "state \<Rightarrow> string \<Rightarrow> state" where
  "predict_fixstats st userId =
     updateUser st userId
       (\<lambda>row. row\<lparr>total_profit := 41, biggest_win := 100, prediction_streak := 1,
                   best_streak := 1, markets_created := 1\<rparr>)"

subsection \<open>Reachable stores\<close>

text \<open>
  The stores the commands can produce from the empty tables, whatever their arguments,
  the clock and the faults. The quick-bet buttons call \<^verbatim>\<open>placeBet\<close> with the amount
  25; the remaining commands only read.
\<close>

inductive reachable :: "state \<Rightarrow> bool" where
  reachable_init: "reachable initial_state"
| reachable_stats: "reachable st \<Longrightarrow> reachable (snd (predict_stats st userId))"
| reachable_resetstats: "reachable st \<Longrightarrow> reachable (predict_resetstats st userId)"
| reachable_fixstats: "reachable st \<Longrightarrow> reachable (predict_fixstats st userId)"
| reachable_create:
    "reachable st \<Longrightarrow> predict_create now st marketId q c d = (r, st1) \<Longrightarrow> reachable st1"
| reachable_place:
    "reachable st \<Longrightarrow> placeBet now st market_id user_id desired_amount p = (r, st1) \<Longrightarrow>
     reachable st1"
| reachable_resolve:
    "reachable st \<Longrightarrow> predict_resolve fails now st marketId outcome = (r, st1) \<Longrightarrow>
     reachable st1"

subsection \<open>The probability computation of the two placement variants\<close>

text \<open>
  What \<^verbatim>\<open>placeBet\<close> hands to \<^verbatim>\<open>updateMarketProbability\<close>, given the bets of the
  market. The database variant filters the bettor's row out and passes no correction;
  the in-memory variant (\<^verbatim>\<open>part_000\<close>, lines 1252-1275) passes every bet of
  \<^verbatim>\<open>market.bets\<close> and the bettor's old bet, found with \<^verbatim>\<open>find\<close>, as
  \<^verbatim>\<open>old_bet?.stake || 0\<close> and \<^verbatim>\<open>old_bet?.probability || 0\<close>.
\<close>

definition placeBet_probability_db :: "bet list \<Rightarrow> string \<Rightarrow> int \<Rightarrow> rat \<Rightarrow> rat option" where
  "placeBet_probability_db all_bets user_id stake probability =
     (let other_bets = filter (\<lambda>bet. bet_user_id bet \<noteq> user_id) all_bets;
          current_stakes = map bet_stake other_bets;
          current_probs = map bet_probability other_bets
      in updateMarketProbability current_stakes current_probs stake probability 0 0)"

definition placeBet_probability_memory :: "bet list \<Rightarrow> string \<Rightarrow> int \<Rightarrow> rat \<Rightarrow> rat option" where
  "placeBet_probability_memory market_bets user_id stake probability =
     (let old_bet = find (\<lambda>bet. bet_user_id bet = user_id) market_bets;
          current_stakes = map bet_stake market_bets;
          current_probs = map bet_probability market_bets
      in updateMarketProbability current_stakes current_probs stake probability
           (case old_bet of Some b \<Rightarrow> bet_stake b | None \<Rightarrow> 0)
           (case old_bet of Some b \<Rightarrow> bet_probability b | None \<Rightarrow> 0))"

subsection \<open>Derived quantities and invariants\<close>

text \<open>
  The bankroll a user can still commit to a market, as \<^verbatim>\<open>placeBet\<close> computes it:
  the user's own stake on that market is released first.
\<close>

definition availableBankroll :: "state \<Rightarrow> string \<Rightarrow> string \<Rightarrow> int" where
  "availableBankroll st market_id user_id =
     (let (user, st1) = getUser st user_id
      in bankroll user - total_staked user
           + (case getUserBet st1 market_id user_id of Some b \<Rightarrow> bet_stake b | None \<Rightarrow> 0))"

text \<open>
  The store a placement leaves once every check has passed: the three writes of the
  transaction, on top of the insert of \<^verbatim>\<open>getUser\<close>.
\<close>

definition placement_store ::
  "state \<Rightarrow> market \<Rightarrow> string \<Rightarrow> string \<Rightarrow> int \<Rightarrow> rat \<Rightarrow> rat \<Rightarrow> state" where
  "placement_store st mk m u s p new_prob =
     (let old = (case getUserBet st m u of Some b \<Rightarrow> bet_stake b | None \<Rightarrow> 0) in
      updateUser
        (updateMarket (upsertBet (snd (getUser st u)) m u s p) m
           (\<lambda>row. row\<lparr>market_probability := new_prob,
                       total_stake := total_stake mk - old + s\<rparr>))
        u (\<lambda>row. row\<lparr>total_staked := total_staked (fst (getUser st u)) + (s - old)\<rparr>))"

text \<open>The error of the first check of \<^verbatim>\<open>placeBet\<close> that fires, the solvency check last.\<close>

definition placement_error :: "int \<Rightarrow> state \<Rightarrow> string \<Rightarrow> string \<Rightarrow> rat \<Rightarrow> error" where
  "placement_error now st market_id user_id probability =
     (if probability < 0 \<or> probability > 1 then InvalidProbability
      else case getMarket st market_id of
        None \<Rightarrow> MarketNotFound
      | Some market \<Rightarrow>
          if \<not> active market then MarketNotFound
          else if now > deadline market then MarketExpired
          else InsufficientBankroll (availableBankroll st market_id user_id))"

text \<open>A market that exists and is not resolved.\<close>

definition market_open :: "state \<Rightarrow> string \<Rightarrow> bool" where
  "market_open st marketId =
     (case markets st marketId of Some market \<Rightarrow> \<not> resolved market | None \<Rightarrow> False)"

text \<open>The stakes a user has on markets that are not resolved.\<close>

definition open_stakes :: "state \<Rightarrow> string \<Rightarrow> int" where
  "open_stakes st userId =
     (\<Sum>b\<leftarrow>filter (\<lambda>b. bet_user_id b = userId \<and> market_open st (bet_market_id b)) (bets st).
        bet_stake b)"

text \<open>
  The stake a user has on one market, and the open stakes the user has on the
  other markets.
\<close>

definition stake_on :: "state \<Rightarrow> string \<Rightarrow> string \<Rightarrow> int" where
  "stake_on st m u = (case getUserBet st m u of Some b \<Rightarrow> bet_stake b | None \<Rightarrow> 0)"

definition rest_stakes :: "state \<Rightarrow> string \<Rightarrow> string \<Rightarrow> int" where
  "rest_stakes st m u =
     (\<Sum>b\<leftarrow>filter (\<lambda>b. bet_user_id b = u \<and> market_open st (bet_market_id b) \<and> bet_market_id b \<noteq> m)
          (bets st). bet_stake b)"

definition stake_weighted_mean :: "bet list \<Rightarrow> rat" where
  "stake_weighted_mean bs =
     (\<Sum>b\<leftarrow>bs. of_int (bet_stake b) * bet_probability b) / of_int (\<Sum>b\<leftarrow>bs. bet_stake b)"

text \<open>
  What every row of \<^verbatim>\<open>bets\<close> satisfies: the key (market, user) is unique, the stake is
  clamped and the probability was validated.
\<close>

definition bets_ok :: "bet list \<Rightarrow> bool" where
  "bets_ok bs \<longleftrightarrow>
     distinct (map (\<lambda>b. (bet_market_id b, bet_user_id b)) bs) \<and>
     list_all (\<lambda>b. 1 \<le> bet_stake b \<and> bet_stake b \<le> 100 \<and>
                    0 \<le> bet_probability b \<and> bet_probability b \<le> 1) bs"

definition store_inv :: "state \<Rightarrow> bool" where
  "store_inv st \<longleftrightarrow>
     bets_ok (bets st) \<and>
     list_all (\<lambda>b. markets st (bet_market_id b) \<noteq> None) (bets st) \<and>
     (\<forall>m row. markets st m = Some row \<and> getMarketBets st m \<noteq> [] \<longrightarrow>
        market_probability row = stake_weighted_mean (getMarketBets st m))"

text \<open>
  The stores produced when no query fails and no bet is placed on a market that is
  already resolved, and what they satisfy: every bettor has a row, and
  \<^verbatim>\<open>total_staked\<close> is the sum of the user's open stakes.
\<close>

inductive fault_free_run :: "state \<Rightarrow> bool" where
  run_init: "fault_free_run initial_state"
| run_stats: "fault_free_run st \<Longrightarrow> fault_free_run (snd (predict_stats st userId))"
| run_create:
    "fault_free_run st \<Longrightarrow> predict_create now st marketId q c d = (r, st1) \<Longrightarrow>
     fault_free_run st1"
| run_place_open:
    "fault_free_run st \<Longrightarrow> market_open st market_id \<Longrightarrow>
     placeBet now st market_id user_id desired_amount p = (r, st1) \<Longrightarrow>
     fault_free_run st1"
| run_resolve:
    "fault_free_run st \<Longrightarrow> predict_resolve (\<lambda>q. False) now st marketId outcome = (r, st1) \<Longrightarrow>
     fault_free_run st1"

definition staked_inv :: "state \<Rightarrow> bool" where
  "staked_inv st \<longleftrightarrow>
     list_all (\<lambda>b. users st (bet_user_id b) \<noteq> None) (bets st) \<and>
     (\<forall>u row. users st u = Some row \<longrightarrow> total_staked row = open_stakes st u)"

subsection \<open>Example stores\<close>

text \<open>
  The end-to-end scenario of the specification: a market with deadline 10 is created
  at time 0, user \<open>a\<close> stakes 40 at 0.6, user \<open>b\<close> stakes 60 at 0.9, and the market is
  resolved YES.
\<close>

definition ex_market :: state where
  "ex_market = snd (predict_create 0 initial_state ''m'' ''q'' ''c'' 10)"

definition ex_bet_a :: state where
  "ex_bet_a = snd (placeBet 1 ex_market ''m'' ''a'' 40 (3 / 5))"

definition ex_bet_b :: state where
  "ex_bet_b = snd (placeBet 2 ex_bet_a ''m'' ''b'' 60 (9 / 10))"

definition ex_resolved :: state where
  "ex_resolved = snd (predict_resolve (\<lambda>q. False) 3 ex_bet_b ''m'' True)"

text \<open>
  A user who has staked the whole bankroll: eleven markets are created, and \<open>u\<close>
  stakes 100 at 0.5 on each of the first ten as soon as it exists.
\<close>

definition ex_insolvent :: state where
  "ex_insolvent =
     snd (predict_create 0
       (fold (\<lambda>m st. snd (placeBet 0 (snd (predict_create 0 st m ''q'' ''c'' 10)) m ''u'' 100 (1 / 2)))
          [''m0'', ''m1'', ''m2'', ''m3'', ''m4'', ''m5'', ''m6'', ''m7'', ''m8'', ''m9'']
          initial_state)
       ''m10'' ''q'' ''c'' 10)"

subsection \<open>Double-precision numbers and \<^verbatim>\<open>DECIMAL(5,4)\<close> columns\<close>

text \<open>
  A JavaScript number is an IEEE 754 binary64 value, and every arithmetic operation
  returns the double nearest to its exact result, ties going to the even significand.
  \<open>fl x\<close> is that double for a rational \<open>x\<close>: with \<open>e\<close> the binary exponent of \<open>x\<close>
  (at least \<open>-1022\<close>, below which the doubles are subnormal), the doubles around \<open>x\<close>
  are the multiples of \<open>2 ^ (e - 52)\<close>, and \<open>rhe\<close> rounds to the nearest of them.
  Overflow (magnitudes of \<open>2 ^ 1024\<close> and more) does not occur in this program and is
  not modelled. \<^verbatim>\<open>parseFloat\<close> of a decimal string is \<open>fl\<close> of the number it denotes.
\<close>

definition rhe :: "rat \<Rightarrow> int" where
  "rhe y = (let f = \<lfloor>y\<rfloor>; r = y - of_int f
            in if r < 1 / 2 then f else if 1 / 2 < r then f + 1
               else if even f then f else f + 1)"

definition exponent :: "rat \<Rightarrow> int" where
  "exponent x = (if 1 \<le> x then bitlen \<lfloor>x\<rfloor> - 1 else - bitlen (\<lceil>1 / x\<rceil> - 1))"

definition fl :: "rat \<Rightarrow> rat" where
  "fl x = (if x = 0 then 0
           else let e = max (exponent \<bar>x\<bar>) (- 1022); q = 2 powi (e - 52)
                in of_int (rhe (x / q)) * q)"


text \<open>
  The pricing and payout functions once more, operation by operation, with the rounding
  \<open>rnd\<close> applied to the result of every floating-point operation. Sums and differences
  of stakes are integers far below \<open>2 ^ 53\<close> and exact. With \<open>fl\<close> for \<open>rnd\<close> these are
  the numbers the program computes; with the identity they are the functions of the
  base model above (lemmas \<open>updateMarketProbability_with_exact\<close>, \<open>payout_with_exact\<close>,
  \<open>placeBet_with_exact\<close>).

  \<^verbatim>\<open>sum + stake * current_probs[i]\<close>, then
  \<^verbatim>\<open>weighted_sum - old_stake * old_prob + new_stake * new_prob\<close> and
  \<^verbatim>\<open>weighted_sum / new_total\<close>:
\<close>

fun reduce_weighted_with ::
  "(rat \<Rightarrow> rat) \<Rightarrow> rat option \<Rightarrow> int list \<Rightarrow> rat list \<Rightarrow> rat option" where
  "reduce_weighted_with rnd acc [] current_probs = acc"
| "reduce_weighted_with rnd acc (stake # current_stakes) [] =
     reduce_weighted_with rnd None current_stakes []"
| "reduce_weighted_with rnd acc (stake # current_stakes) (p # current_probs) =
     reduce_weighted_with rnd (map_option (\<lambda>a. rnd (a + rnd (of_int stake * p))) acc)
       current_stakes current_probs"

definition updateMarketProbability_with ::
  "(rat \<Rightarrow> rat) \<Rightarrow> int list \<Rightarrow> rat list \<Rightarrow> int \<Rightarrow> rat \<Rightarrow> int \<Rightarrow> rat \<Rightarrow> rat option" where
  "updateMarketProbability_with rnd current_stakes current_probs new_stake new_prob old_stake old_prob =
     (let current_total = stake_total current_stakes in
      if current_total = 0 then Some new_prob
      else
        let new_total = current_total - old_stake + new_stake;
            weighted_sum =
              map_option (\<lambda>w. rnd (rnd (w - rnd (of_int old_stake * old_prob))
                                     + rnd (of_int new_stake * new_prob)))
                (reduce_weighted_with rnd (Some 0) current_stakes current_probs)
        in if new_total = 0 then Some (1 / 2)
           else map_option (\<lambda>w. rnd (w / of_int new_total)) weighted_sum)"

text \<open>
  The two placement variants, given the bets of the market with their probabilities as
  numbers.
\<close>

definition placeBet_probability_db_with ::
  "(rat \<Rightarrow> rat) \<Rightarrow> bet list \<Rightarrow> string \<Rightarrow> int \<Rightarrow> rat \<Rightarrow> rat option" where
  "placeBet_probability_db_with rnd all_bets user_id stake probability =
     (let other_bets = filter (\<lambda>bet. bet_user_id bet \<noteq> user_id) all_bets;
          current_stakes = map bet_stake other_bets;
          current_probs = map bet_probability other_bets
      in updateMarketProbability_with rnd current_stakes current_probs stake probability 0 0)"

definition placeBet_probability_memory_with ::
  "(rat \<Rightarrow> rat) \<Rightarrow> bet list \<Rightarrow> string \<Rightarrow> int \<Rightarrow> rat \<Rightarrow> rat option" where
  "placeBet_probability_memory_with rnd market_bets user_id stake probability =
     (let old_bet = find (\<lambda>bet. bet_user_id bet = user_id) market_bets;
          current_stakes = map bet_stake market_bets;
          current_probs = map bet_probability market_bets
      in updateMarketProbability_with rnd current_stakes current_probs stake probability
           (case old_bet of Some b \<Rightarrow> bet_stake b | None \<Rightarrow> 0)
           (case old_bet of Some b \<Rightarrow> bet_probability b | None \<Rightarrow> 0))"

text \<open>
  \<^verbatim>\<open>accuracy = outcome ? parseFloat(bet.probability) : (1 - parseFloat(bet.probability))\<close>
  and \<^verbatim>\<open>Math.floor(bet.stake * (1 + accuracy))\<close>:
\<close>

definition payout_with :: "(rat \<Rightarrow> rat) \<Rightarrow> bool \<Rightarrow> bet \<Rightarrow> int" where
  "payout_with rnd outcome bet =
     (let p = rnd (bet_probability bet);
          accuracy = (if outcome then p else rnd (1 - p))
      in \<lfloor>rnd (of_int (bet_stake bet) * rnd (1 + accuracy))\<rfloor>)"

text \<open>
  \<^verbatim>\<open>placeBet\<close> with the rounding \<open>rnd\<close> of the arithmetic and the rounding \<open>dec\<close> of
  a write to a probability column: the stored probabilities of the other bets are read
  with \<^verbatim>\<open>parseFloat\<close>, and \<^verbatim>\<open>upsertBet\<close> and \<^verbatim>\<open>updateMarket\<close> store what the
  column makes of \<open>probability\<close> and \<open>new_prob\<close>. The result reports \<open>new_prob\<close> as it
  was computed. As in the base model, the \<open>None\<close> branch is never taken (lemma
  \<open>placeBet_with_no_persistence_failure\<close>).
\<close>

definition placeBet_with ::
  "(rat \<Rightarrow> rat) \<Rightarrow> (rat \<Rightarrow> rat) \<Rightarrow> int \<Rightarrow> state \<Rightarrow> string \<Rightarrow> string \<Rightarrow> int \<Rightarrow> rat
     \<Rightarrow> (error + placed) \<times> state" where
  "placeBet_with rnd dec now st market_id user_id desired_amount probability =
     (if probability < 0 \<or> probability > 1 then (Inl InvalidProbability, st)
      else case getMarket st market_id of
        None \<Rightarrow> (Inl MarketNotFound, st)
      | Some market \<Rightarrow>
          if \<not> active market then (Inl MarketNotFound, st)
          else if now > deadline market then (Inl MarketExpired, st)
          else
            let stake = calculateStake desired_amount;
                (user, st1) = getUser st user_id;
                old_bet = getUserBet st1 market_id user_id;
                available_bankroll = bankroll user - total_staked user
                  + (case old_bet of Some b \<Rightarrow> bet_stake b | None \<Rightarrow> 0)
            in if stake > available_bankroll
               then (Inl (InsufficientBankroll available_bankroll), st1)
               else
                 let all_bets = getMarketBets st1 market_id;
                     other_bets = filter (\<lambda>bet. bet_user_id bet \<noteq> user_id) all_bets;
                     current_stakes = map bet_stake other_bets;
                     current_probs = map (\<lambda>bet. rnd (bet_probability bet)) other_bets
                 in (case updateMarketProbability_with rnd current_stakes current_probs
                            stake probability 0 0 of
                      None \<Rightarrow> (Inl PersistenceFailure, st1)
                    | Some new_prob \<Rightarrow>
                        let old_stake = (case old_bet of Some b \<Rightarrow> bet_stake b | None \<Rightarrow> 0);
                            new_total_stake = total_stake market - old_stake + stake;
                            st2 = upsertBet st1 market_id user_id stake (dec probability);
                            st3 = updateMarket st2 market_id
                                    (\<lambda>row. row\<lparr>market_probability := dec new_prob,
                                                total_stake := new_total_stake\<rparr>);
                            net_stake_change = stake - old_stake;
                            st4 = updateUser st3 user_id
                                    (\<lambda>row. row\<lparr>total_staked := total_staked user + net_stake_change\<rparr>)
                        in (Inr \<lparr>stake_placed = stake, new_market_probability = new_prob,
                                  was_capped = (stake < desired_amount),
                                  placed_user = fst (getUser st4 user_id),
                                  placed_market = getMarket st4 market_id\<rparr>,
                            snd (getUser st4 user_id))))"



subsection \<open>Facts about the pricing model\<close>

lemma foldl_plus_sum_list: "foldl (\<lambda>sum stake. sum + stake) a xs = a + sum_list (xs :: int list)"
  by (induction xs arbitrary: a) simp_all

lemma stake_total_sum_list: "stake_total xs = sum_list xs"
  by (simp add: stake_total_def foldl_plus_sum_list)


lemma reduce_weighted_parallel:
  "length ps = length ss \<Longrightarrow>
   reduce_weighted (Some a) ss ps = Some (a + (\<Sum>(s, p)\<leftarrow>zip ss ps. of_int s * p))"
proof (induction ss arbitrary: ps a)
  case Nil
  then show ?case by simp
next
  case (Cons s ss)
  then obtain p ps' where ps: "ps = p # ps'" and len: "length ps' = length ss"
    by (cases ps) auto
  show ?case
    using Cons.IH [OF len, of "a + of_int s * p"] by (simp add: ps add.assoc)
qed

lemma updateMarketProbability_parallel:
  assumes "length current_probs = length current_stakes"
  shows "updateMarketProbability current_stakes current_probs new_stake new_prob old_stake old_prob \<noteq> None"
  unfolding updateMarketProbability_def Let_def reduce_weighted_parallel [OF assms]
  by (simp del: not_None_eq)


lemma weighted_bounds:
  "length ps = length ss \<Longrightarrow> \<forall>s\<in>set ss. 0 \<le> s \<Longrightarrow> \<forall>p\<in>set ps. 0 \<le> p \<and> p \<le> 1 \<Longrightarrow>
   0 \<le> (\<Sum>(s, p)\<leftarrow>zip ss ps. of_int s * p) \<and>
   (\<Sum>(s, p)\<leftarrow>zip ss ps. of_int s * p) \<le> (of_int (sum_list ss) :: rat)"
proof (induction ps ss rule: list_induct2)
  case Nil
  then show ?case by simp
next
  case (Cons p ps s ss)
  have s: "0 \<le> (of_int s :: rat)" using Cons.prems by simp
  have p: "0 \<le> p" "p \<le> 1" using Cons.prems by simp_all
  have "0 \<le> of_int s * p" using s p by simp
  moreover have "of_int s * p \<le> of_int s" using s p by (simp add: mult_left_le)
  ultimately show ?case using Cons by simp
qed

lemma updateMarketProbability_bounds:
  assumes "length probs = length stakes" "\<forall>s\<in>set stakes. 0 \<le> s"
    "\<forall>p\<in>set probs. 0 \<le> p \<and> p \<le> 1" "1 \<le> newStake" "0 \<le> newProb" "newProb \<le> 1"
  shows "\<exists>r. updateMarketProbability stakes probs newStake newProb 0 0 = Some r \<and> 0 \<le> r \<and> r \<le> 1"
proof -
  let ?w = "(\<Sum>(s, p)\<leftarrow>zip stakes probs. of_int s * p) :: rat"
  let ?t = "sum_list stakes"
  have w: "0 \<le> ?w" "?w \<le> of_int ?t" using weighted_bounds [OF assms(1-3)] by simp_all
  have t: "0 \<le> ?t" using assms(2) by (simp add: sum_list_nonneg)
  have n: "0 \<le> of_int newStake * newProb" "of_int newStake * newProb \<le> (of_int newStake :: rat)"
    using assms(4-6) by (simp_all add: mult_left_le)
  have pos: "0 < (of_int (?t + newStake) :: rat)" using t assms(4) by linarith
  have "0 \<le> (?w + of_int newStake * newProb) / of_int (?t + newStake)"
    using w n pos by simp
  moreover have "(?w + of_int newStake * newProb) / of_int (?t + newStake) \<le> 1"
    using w n pos by (simp add: divide_le_eq)
  moreover have "?t + newStake \<noteq> 0" using t assms(4) by linarith
  ultimately show ?thesis
    using assms(5,6)
    by (simp add: updateMarketProbability_def stake_total_sum_list
        reduce_weighted_parallel [OF assms(1)] Let_def)
qed

subsection \<open>Facts about the ledger\<close>

lemma getUser_bets [simp]: "bets (snd (getUser st u)) = bets st"
  by (simp add: getUser_def Let_def split: option.splits)

lemma getUser_markets [simp]: "markets (snd (getUser st u)) = markets st"
  by (simp add: getUser_def Let_def split: option.splits)

lemma getUser_existing: "users st u = Some row \<Longrightarrow> getUser st u = (row, st)"
  by (simp add: getUser_def)

lemma updateUser_bets [simp]: "bets (updateUser st u f) = bets st"
  by (simp add: updateUser_def split: option.splits)

lemma updateUser_markets [simp]: "markets (updateUser st u f) = markets st"
  by (simp add: updateUser_def split: option.splits)

lemma updateMarket_bets [simp]: "bets (updateMarket st m f) = bets st"
  by (simp add: updateMarket_def split: option.splits)

lemma updateMarket_users [simp]: "users (updateMarket st m f) = users st"
  by (simp add: updateMarket_def split: option.splits)

lemma upsertBet_markets [simp]: "markets (upsertBet st m u s p) = markets st"
  by (simp add: upsertBet_def)

lemma upsertBet_users [simp]: "users (upsertBet st m u s p) = users st"
  by (simp add: upsertBet_def)

lemma getMarketBets_cong: "bets st1 = bets st \<Longrightarrow> getMarketBets st1 m = getMarketBets st m"
  by (simp add: getMarketBets_def)

lemma getUserBet_cong: "bets st1 = bets st \<Longrightarrow> getUserBet st1 m u = getUserBet st m u"
  by (simp add: getUserBet_def)

lemma overwrite_key [simp]:
  "bet_market_id (overwrite m u s p b) = bet_market_id b"
  "bet_user_id (overwrite m u s p b) = bet_user_id b"
  by (simp_all add: overwrite_def)

lemma upsertBet_bets:
  "bets (upsertBet st m u s p) =
     (if list_ex (\<lambda>b. bet_market_id b = m \<and> bet_user_id b = u) (bets st)
      then map (overwrite m u s p) (bets st)
      else bets st @ [\<lparr>bet_market_id = m, bet_user_id = u, bet_stake = s, bet_probability = p\<rparr>])"
  by (simp add: upsertBet_def)

lemma upsertBet_bets_ok:
  assumes "bets_ok (bets st)" "1 \<le> s" "s \<le> 100" "0 \<le> p" "p \<le> 1"
  shows "bets_ok (bets (upsertBet st m u s p))"
proof (cases "list_ex (\<lambda>b. bet_market_id b = m \<and> bet_user_id b = u) (bets st)")
  case True
  have "distinct (map (\<lambda>b. (bet_market_id b, bet_user_id b)) (map (overwrite m u s p) (bets st)))"
    using assms(1) by (simp add: comp_def bets_ok_def)
  moreover have "list_all (\<lambda>b. 1 \<le> bet_stake b \<and> bet_stake b \<le> 100 \<and>
                    0 \<le> bet_probability b \<and> bet_probability b \<le> 1)
                   (map (overwrite m u s p) (bets st))"
    using assms by (auto simp: list_all_iff bets_ok_def overwrite_def)
  ultimately show ?thesis
    using True unfolding bets_ok_def upsertBet_bets by (simp only: if_True simp_thms)
next
  case False
  then show ?thesis
    using assms by (auto simp: upsertBet_bets bets_ok_def list_all_iff list_ex_iff)
qed

lemma upsertBet_other_market:
  assumes "m' \<noteq> m"
  shows "getMarketBets (upsertBet st m u s p) m' = getMarketBets st m'"
proof -
  have "filter (\<lambda>b. bet_market_id b = m') (map (overwrite m u s p) bs)
        = filter (\<lambda>b. bet_market_id b = m') bs" for bs
    using assms by (induction bs) (auto simp: overwrite_def)
  then show ?thesis
    using assms by (simp add: getMarketBets_def upsertBet_bets)
qed

lemma overwrite_sum:
  assumes "distinct (map (\<lambda>b. (bet_market_id b, bet_user_id b)) bs)"
  shows "(\<Sum>b\<leftarrow>filter (\<lambda>b. bet_market_id b = m) (map (overwrite m u s p) bs).
            g (bet_stake b) (bet_probability b))
       = (\<Sum>b\<leftarrow>filter (\<lambda>b. bet_user_id b \<noteq> u) (filter (\<lambda>b. bet_market_id b = m) bs).
            g (bet_stake b) (bet_probability b))
         + (if list_ex (\<lambda>b. bet_market_id b = m \<and> bet_user_id b = u) bs then g s p else (0::'a::comm_monoid_add))"
  using assms
proof (induction bs)
  case Nil
  then show ?case by simp
next
  case (Cons b bs)
  show ?case
  proof (cases "bet_market_id b = m \<and> bet_user_id b = u")
    case True
    with Cons.prems have "\<not> list_ex (\<lambda>b. bet_market_id b = m \<and> bet_user_id b = u) bs"
      by (auto simp: list_ex_iff image_iff)
    with Cons True show ?thesis by (simp add: add.commute overwrite_def)
  next
    case False
    with Cons show ?thesis by (auto simp: add.assoc overwrite_def)
  qed
qed

lemma upsertBet_sum:
  assumes "distinct (map (\<lambda>b. (bet_market_id b, bet_user_id b)) (bets st))"
  shows "(\<Sum>b\<leftarrow>getMarketBets (upsertBet st m u s p) m. g (bet_stake b) (bet_probability b))
       = (\<Sum>b\<leftarrow>filter (\<lambda>b. bet_user_id b \<noteq> u) (getMarketBets st m).
            g (bet_stake b) (bet_probability b)) + (g s p :: 'a::comm_monoid_add)"
proof (cases "list_ex (\<lambda>b. bet_market_id b = m \<and> bet_user_id b = u) (bets st)")
  case True
  then show ?thesis
    using overwrite_sum [OF assms, where m = m and u = u and s = s and p = p and g = g]
    by (simp add: getMarketBets_def upsertBet_bets)
next
  case False
  then have "filter (\<lambda>b. bet_user_id b \<noteq> u) (filter (\<lambda>b. bet_market_id b = m) (bets st))
      = filter (\<lambda>b. bet_market_id b = m) (bets st)"
    by (auto simp: list_ex_iff intro: filter_cong)
  with False show ?thesis
    by (simp add: getMarketBets_def upsertBet_bets)
qed

lemma upsertBet_nonempty: "getMarketBets (upsertBet st m u s p) m \<noteq> []"
proof (cases "list_ex (\<lambda>b. bet_market_id b = m \<and> bet_user_id b = u) (bets st)")
  case True
  then obtain b where "b \<in> set (bets st)" "bet_market_id b = m"
    by (auto simp: list_ex_iff)
  then have "overwrite m u s p b \<in> set (map (overwrite m u s p) (bets st))"
    "bet_market_id (overwrite m u s p b) = m"
    by simp_all
  then have "\<exists>x\<in>set (map (overwrite m u s p) (bets st)). bet_market_id x = m"
    by blast
  with True show ?thesis
    by (simp only: getMarketBets_def upsertBet_bets filter_empty_conv if_True) blast
next
  case False
  then show ?thesis
    by (simp add: getMarketBets_def upsertBet_bets)
qed

lemma getUser_after: "users (snd (getUser st u)) u = Some (fst (getUser st u))"
  by (simp add: getUser_def Let_def split: option.splits)

lemma getUser_users_mono: "users st x \<noteq> None \<Longrightarrow> users (snd (getUser st u)) x \<noteq> None"
  by (simp add: getUser_def Let_def split: option.splits)

lemma getUser_idem: "snd (getUser (snd (getUser st u)) u) = snd (getUser st u)"
  by (simp add: getUser_def Let_def split: option.splits)

lemma calculateStake_range: "1 \<le> calculateStake d \<and> calculateStake d \<le> 100"
  by (simp add: calculateStake_def)

lemma zip_map_sum:
  "(\<Sum>(s, p)\<leftarrow>zip (map f xs) (map g xs). h s p) = (\<Sum>x\<leftarrow>xs. h (f x) (g x) :: 'a::comm_monoid_add)"
  by (induction xs) simp_all

lemma sum_list_pos_stakes:
  "\<forall>b\<in>set bs. 1 \<le> bet_stake b \<Longrightarrow> int (length bs) \<le> (\<Sum>b\<leftarrow>bs. bet_stake b)"
  by (induction bs) auto

lemma db_probability_mean:
  assumes "\<forall>b\<in>set others. 1 \<le> bet_stake b" "1 \<le> s"
  shows "updateMarketProbability (map bet_stake others) (map bet_probability others) s p 0 0 =
         Some (((\<Sum>b\<leftarrow>others. of_int (bet_stake b) * bet_probability b) + of_int s * p)
               / of_int ((\<Sum>b\<leftarrow>others. bet_stake b) + s))"
proof (cases "others = []")
  case True
  then show ?thesis using assms(2) by (simp add: updateMarketProbability_def stake_total_def)
next
  case False
  then have "0 < int (length others)" by simp
  with sum_list_pos_stakes [OF assms(1)] have pos: "0 < (\<Sum>b\<leftarrow>others. bet_stake b)" by linarith
  with assms(2) have "(\<Sum>b\<leftarrow>others. bet_stake b) + s \<noteq> 0" by linarith
  with pos show ?thesis
    by (simp add: updateMarketProbability_def stake_total_sum_list Let_def
        reduce_weighted_parallel zip_map_sum)
qed

lemma placeBet_no_persistence_failure:
  "fst (placeBet now st market_id user_id desired_amount probability) \<noteq> Inl PersistenceFailure"
proof -
  obtain user st0 where g: "getUser st user_id = (user, st0)" by (cases "getUser st user_id")
  have "updateMarketProbability
          (map bet_stake (filter (\<lambda>bet. bet_user_id bet \<noteq> user_id) (getMarketBets st0 market_id)))
          (map bet_probability (filter (\<lambda>bet. bet_user_id bet \<noteq> user_id) (getMarketBets st0 market_id)))
          (calculateStake desired_amount) probability 0 0 \<noteq> None"
    by (rule updateMarketProbability_parallel) simp
  then show ?thesis
    by (auto simp: placeBet_def Let_def g split: option.splits)
qed

lemma placeBet_Inl:
  assumes "placeBet now st m u d p = (Inl e, st1)"
  shows "bets st1 = bets st \<and> markets st1 = markets st"
proof -
  obtain user st0 where g: "getUser st u = (user, st0)" by (cases "getUser st u")
  have "bets st0 = bets st" "markets st0 = markets st"
    using getUser_bets [of st u] getUser_markets [of st u] g by simp_all
  then show ?thesis
    using assms
    by (auto simp: placeBet_def Let_def getMarket_def g split: if_splits option.splits)
qed

lemma placeBet_Inr:
  assumes "placeBet now st m u d p = (Inr r, st1)"
  shows "\<exists>mk new_prob. 0 \<le> p \<and> p \<le> 1 \<and> markets st m = Some mk \<and> active mk \<and> now \<le> deadline mk \<and>
     calculateStake d \<le> availableBankroll st m u \<and>
     placeBet_probability_db (getMarketBets st m) u (calculateStake d) p = Some new_prob \<and>
     new_market_probability r = new_prob \<and>
     st1 = placement_store st mk m u (calculateStake d) p new_prob"
proof -
  obtain user st0 where g: "getUser st u = (user, st0)" by (cases "getUser st u")
  have b: "bets st0 = bets st" using getUser_bets [of st u] g by simp
  have mb: "getMarketBets st0 m = getMarketBets st m" "getUserBet st0 m u = getUserBet st m u"
    using b by (simp_all add: getMarketBets_def getUserBet_def)
  have us: "users st0 u \<noteq> None" using getUser_after [of st u] g by simp
  have fin: "snd (getUser (updateUser st' u f) u) = updateUser st' u f" if "users st' u \<noteq> None" for st' f
    using that by (auto simp: getUser_def updateUser_def split: option.splits)
  show ?thesis
    using assms us
    by (auto simp: placeBet_def Let_def getMarket_def g mb availableBankroll_def
        placeBet_probability_db_def placement_store_def fin
        split: if_splits option.splits)
qed

lemma store_inv_cong:
  "bets st1 = bets st \<Longrightarrow> markets st1 = markets st \<Longrightarrow> store_inv st1 = store_inv st"
  by (simp add: store_inv_def getMarketBets_def)

lemma upsertBet_bets_cong:
  "bets st0 = bets st \<Longrightarrow> bets (upsertBet st0 m u s p) = bets (upsertBet st m u s p)"
  by (simp add: upsertBet_bets)

lemma placement_store_bets:
  "bets (placement_store st mk m u s p np) = bets (upsertBet st m u s p)"
  by (simp add: placement_store_def Let_def upsertBet_bets)

lemma placement_store_markets:
  "markets st m = Some mk \<Longrightarrow>
   \<exists>ts. markets (placement_store st mk m u s p np) =
     (markets st)(m \<mapsto> mk\<lparr>market_probability := np, total_stake := ts\<rparr>)"
  by (rule exI [of _ "total_stake mk
        - (case getUserBet st m u of Some b \<Rightarrow> bet_stake b | None \<Rightarrow> 0) + s"])
    (simp add: placement_store_def Let_def updateMarket_def)

lemma upsertBet_market_ids:
  "set (map bet_market_id (bets (upsertBet st m u s p))) \<subseteq> insert m (set (map bet_market_id (bets st)))"
  by (auto simp: upsertBet_bets)

lemma stake_weighted_mean_upsert:
  assumes "bets_ok (bets st)" "1 \<le> s"
  shows "placeBet_probability_db (getMarketBets st m) u s p =
         Some (stake_weighted_mean (getMarketBets (upsertBet st m u s p) m))"
proof -
  let ?others = "filter (\<lambda>b. bet_user_id b \<noteq> u) (getMarketBets st m)"
  have d: "distinct (map (\<lambda>b. (bet_market_id b, bet_user_id b)) (bets st))"
    using assms(1) by (simp add: bets_ok_def)
  have o: "\<forall>b\<in>set ?others. 1 \<le> bet_stake b"
    using assms(1) by (auto simp: bets_ok_def list_all_iff getMarketBets_def)
  have s1: "(\<Sum>b\<leftarrow>getMarketBets (upsertBet st m u s p) m. bet_stake b) = (\<Sum>b\<leftarrow>?others. bet_stake b) + s"
    using upsertBet_sum [OF d, where g = "\<lambda>s p. s"] by simp
  have s2: "(\<Sum>b\<leftarrow>getMarketBets (upsertBet st m u s p) m. of_int (bet_stake b) * bet_probability b)
      = (\<Sum>b\<leftarrow>?others. of_int (bet_stake b) * bet_probability b) + of_int s * p"
    using upsertBet_sum [OF d, where g = "\<lambda>s p. of_int s * p"] by simp
  show ?thesis
    unfolding placeBet_probability_db_def Let_def stake_weighted_mean_def s1 s2
    by (rule db_probability_mean [OF o assms(2)])
qed

lemma placement_store_inv:
  assumes inv: "store_inv st" and mk: "markets st m = Some mk"
    and s: "1 \<le> s" "s \<le> 100" and p: "0 \<le> p" "p \<le> 1"
    and np: "placeBet_probability_db (getMarketBets st m) u s p = Some np"
  shows "store_inv (placement_store st mk m u s p np)"
proof -
  let ?st = "placement_store st mk m u s p np"
  have ok: "bets_ok (bets st)" using inv by (simp add: store_inv_def)
  obtain ts where ms: "markets ?st = (markets st)(m \<mapsto> mk\<lparr>market_probability := np, total_stake := ts\<rparr>)"
    using placement_store_markets [OF mk] by blast
  have bs: "bets ?st = bets (upsertBet st m u s p)" by (rule placement_store_bets)
  have a: "bets_ok (bets ?st)"
    unfolding bs by (rule upsertBet_bets_ok [OF ok s p])
  have "\<forall>b\<in>set (bets st). markets st (bet_market_id b) \<noteq> None"
    using inv by (simp add: store_inv_def list_all_iff)
  then have "\<forall>b\<in>set (bets (upsertBet st m u s p)). markets ?st (bet_market_id b) \<noteq> None"
    using upsertBet_market_ids [of st m u s p] by (auto simp: ms)
  then have b: "list_all (\<lambda>b. markets ?st (bet_market_id b) \<noteq> None) (bets ?st)"
    by (simp add: bs list_all_iff)
  have c: "market_probability row = stake_weighted_mean (getMarketBets ?st m')"
    if "markets ?st m' = Some row" "getMarketBets ?st m' \<noteq> []" for m' row
  proof (cases "m' = m")
    case True
    have "getMarketBets ?st m = getMarketBets (upsertBet st m u s p) m"
      by (rule getMarketBets_cong [OF bs])
    moreover have "np = stake_weighted_mean (getMarketBets (upsertBet st m u s p) m)"
      using stake_weighted_mean_upsert [OF ok s(1), of m u p] np by simp
    moreover have "market_probability row = np" using that(1) True by (auto simp: ms)
    ultimately show ?thesis using True by simp
  next
    case False
    have "getMarketBets ?st m' = getMarketBets st m'"
      using getMarketBets_cong [OF bs, of m'] upsertBet_other_market [OF False] by simp
    then show ?thesis using that False inv by (simp add: ms store_inv_def)
  qed
  show ?thesis
    unfolding store_inv_def using a b c by blast
qed

lemma placeBet_inv:
  assumes "store_inv st" "placeBet now st m u d p = (r, st1)"
  shows "store_inv st1"
proof (cases r)
  case (Inl e)
  with assms(2) have "bets st1 = bets st \<and> markets st1 = markets st"
    by (simp add: placeBet_Inl)
  then show ?thesis using assms(1) store_inv_cong by blast
next
  case (Inr res)
  with assms(2) placeBet_Inr [of now st m u d p res st1]
  obtain mk np where "0 \<le> p" "p \<le> 1" "markets st m = Some mk"
    "placeBet_probability_db (getMarketBets st m) u (calculateStake d) p = Some np"
    "st1 = placement_store st mk m u (calculateStake d) p np"
    by blast
  then show ?thesis
    using placement_store_inv [OF assms(1), of m mk "calculateStake d" p u np] calculateStake_range [of d]
    by simp
qed

lemma pay_bet_bets [simp]: "bets (pay_bet fails outcome st b) = bets st"
  by (simp add: pay_bet_def Let_def split: prod.splits)
    (metis getUser_bets snd_conv)

lemma pay_bet_markets [simp]: "markets (pay_bet fails outcome st b) = markets st"
  by (simp add: pay_bet_def Let_def split: prod.splits)
    (metis getUser_markets snd_conv)

lemma foldl_pay_bet_bets [simp]: "bets (foldl (pay_bet fails outcome) st bs) = bets st"
  by (induction bs arbitrary: st) simp_all

lemma foldl_pay_bet_markets [simp]: "markets (foldl (pay_bet fails outcome) st bs) = markets st"
  by (induction bs arbitrary: st) simp_all

lemma predict_resolve_bets:
  "predict_resolve fails now st m outcome = (r, st1) \<Longrightarrow> bets st1 = bets st"
  by (auto simp: predict_resolve_def Let_def split: option.splits if_splits)

lemma predict_resolve_markets:
  assumes "predict_resolve fails now st m outcome = (r, st1)"
  shows "markets st1 = markets st \<or>
    (\<exists>row. markets st m = Some row \<and>
       markets st1 = (markets st)(m \<mapsto> row\<lparr>resolved := True, resolution := Some outcome,
                                        resolved_at := Some now\<rparr>))"
  using assms
  by (auto simp: predict_resolve_def Let_def getMarket_def updateMarket_def
      split: option.splits if_splits)

lemma predict_resolve_inv:
  assumes "store_inv st" "predict_resolve fails now st m outcome = (r, st1)"
  shows "store_inv st1"
proof -
  have b: "bets st1 = bets st" using assms(2) by (rule predict_resolve_bets)
  from predict_resolve_markets [OF assms(2)] show ?thesis
  proof
    assume "markets st1 = markets st"
    with b assms(1) store_inv_cong show ?thesis by blast
  next
    assume "\<exists>row. markets st m = Some row \<and>
       markets st1 = (markets st)(m \<mapsto> row\<lparr>resolved := True, resolution := Some outcome,
                                        resolved_at := Some now\<rparr>)"
    then obtain row where row: "markets st m = Some row"
       "markets st1 = (markets st)(m \<mapsto> row\<lparr>resolved := True, resolution := Some outcome,
                                        resolved_at := Some now\<rparr>)" by blast
    show ?thesis
      using assms(1) row unfolding store_inv_def b getMarketBets_def list_all_iff
      by auto
  qed
qed

lemma predict_create_inv:
  assumes "store_inv st" "predict_create now st m q c d = (r, st1)"
  shows "store_inv st1"
proof (cases r)
  case (Inl e)
  with assms(2) have "st1 = st"
    by (auto simp: predict_create_def split: if_splits sum.splits)
  with assms(1) show ?thesis by simp
next
  case (Inr x)
  with assms(2) have fresh: "markets st m = None"
    and b: "bets st1 = bets st"
    and ms: "\<exists>row. markets st1 = (markets st)(m \<mapsto> row)"
    by (auto simp: predict_create_def createMarket_def Let_def split: if_splits sum.splits option.splits)
  from assms(1) fresh have "getMarketBets st m = []"
    by (auto simp: store_inv_def list_all_iff getMarketBets_def filter_empty_conv)
  with assms(1) fresh ms show ?thesis
    unfolding store_inv_def b getMarketBets_def list_all_iff by (auto split: if_splits)
qed

lemma initial_inv: "store_inv initial_state"
  by (simp add: store_inv_def initial_state_def bets_ok_def getMarketBets_def)

lemma users_only_inv:
  "store_inv (snd (predict_stats st u)) = store_inv st"
  "store_inv (predict_resetstats st u) = store_inv st"
  "store_inv (predict_fixstats st u) = store_inv st"
  by (rule store_inv_cong; simp add: predict_stats_def predict_resetstats_def predict_fixstats_def)+

lemma reachable_inv: "reachable st \<Longrightarrow> store_inv st"
  by (induction rule: reachable.induct)
    (auto simp: users_only_inv
       intro: initial_inv predict_create_inv placeBet_inv predict_resolve_inv)

subsection \<open>The example stores, evaluated\<close>

lemma ex_market_eval:
  "ex_market = \<lparr>users = Map.empty,
     markets = [''m'' \<mapsto> \<lparr>question = ''q'', creator = ''c'', deadline = 10, resolved = False,
                      resolution = None, resolved_at = None, market_probability = 1 / 2,
                      total_stake = 0, active = True\<rparr>],
     bets = []\<rparr>"
  by (simp add: ex_market_def predict_create_def createMarket_def initial_state_def updateUser_def)

lemma ex_bet_a_eval:
  "ex_bet_a = \<lparr>users = [''a'' \<mapsto> new_user\<lparr>total_staked := 40\<rparr>],
     markets = [''m'' \<mapsto> \<lparr>question = ''q'', creator = ''c'', deadline = 10, resolved = False,
                      resolution = None, resolved_at = None, market_probability = 3 / 5,
                      total_stake = 40, active = True\<rparr>],
     bets = [\<lparr>bet_market_id = ''m'', bet_user_id = ''a'', bet_stake = 40, bet_probability = 3 / 5\<rparr>]\<rparr>"
  by (simp add: ex_bet_a_def ex_market_eval placeBet_def getMarket_def getUser_def calculateStake_def
      getUserBet_def getMarketBets_def updateMarketProbability_def stake_total_def upsertBet_def
      updateMarket_def updateUser_def new_user_def Let_def)

lemma ex_bet_b_eval:
  "ex_bet_b = \<lparr>users = [''a'' \<mapsto> new_user\<lparr>total_staked := 40\<rparr>, ''b'' \<mapsto> new_user\<lparr>total_staked := 60\<rparr>],
     markets = [''m'' \<mapsto> \<lparr>question = ''q'', creator = ''c'', deadline = 10, resolved = False,
                      resolution = None, resolved_at = None, market_probability = 39 / 50,
                      total_stake = 100, active = True\<rparr>],
     bets = [\<lparr>bet_market_id = ''m'', bet_user_id = ''a'', bet_stake = 40, bet_probability = 3 / 5\<rparr>,
             \<lparr>bet_market_id = ''m'', bet_user_id = ''b'', bet_stake = 60, bet_probability = 9 / 10\<rparr>]\<rparr>"
  by (simp add: ex_bet_b_def ex_bet_a_eval placeBet_def getMarket_def getUser_def calculateStake_def
      getUserBet_def getMarketBets_def updateMarketProbability_def stake_total_def upsertBet_def
      updateMarket_def updateUser_def new_user_def Let_def)

lemma reachable_ex_market: "reachable ex_market"
  unfolding ex_market_def by (rule reachable_create [OF reachable_init prod.collapse [symmetric]])

lemma reachable_ex_bet_a: "reachable ex_bet_a"
  unfolding ex_bet_a_def by (rule reachable_place [OF reachable_ex_market prod.collapse [symmetric]])

lemma reachable_ex_bet_b: "reachable ex_bet_b"
  unfolding ex_bet_b_def by (rule reachable_place [OF reachable_ex_bet_a prod.collapse [symmetric]])

lemma reachable_ex_resolved: "reachable ex_resolved"
  unfolding ex_resolved_def by (rule reachable_resolve [OF reachable_ex_bet_b prod.collapse [symmetric]])

lemma ex_insolvent_eval:
  "ex_insolvent = \<lparr>users = [''u'' \<mapsto> new_user\<lparr>total_staked := 1000\<rparr>],
     markets =
      [''m0'' \<mapsto> \<lparr>question = ''q'', creator = ''c'', deadline = 10, resolved = False, resolution = None, resolved_at = None, market_probability = 1 / 2, total_stake = 100, active = True\<rparr>,
       ''m1'' \<mapsto> \<lparr>question = ''q'', creator = ''c'', deadline = 10, resolved = False, resolution = None, resolved_at = None, market_probability = 1 / 2, total_stake = 100, active = True\<rparr>,
       ''m2'' \<mapsto> \<lparr>question = ''q'', creator = ''c'', deadline = 10, resolved = False, resolution = None, resolved_at = None, market_probability = 1 / 2, total_stake = 100, active = True\<rparr>,
       ''m3'' \<mapsto> \<lparr>question = ''q'', creator = ''c'', deadline = 10, resolved = False, resolution = None, resolved_at = None, market_probability = 1 / 2, total_stake = 100, active = True\<rparr>,
       ''m4'' \<mapsto> \<lparr>question = ''q'', creator = ''c'', deadline = 10, resolved = False, resolution = None, resolved_at = None, market_probability = 1 / 2, total_stake = 100, active = True\<rparr>,
       ''m5'' \<mapsto> \<lparr>question = ''q'', creator = ''c'', deadline = 10, resolved = False, resolution = None, resolved_at = None, market_probability = 1 / 2, total_stake = 100, active = True\<rparr>,
       ''m6'' \<mapsto> \<lparr>question = ''q'', creator = ''c'', deadline = 10, resolved = False, resolution = None, resolved_at = None, market_probability = 1 / 2, total_stake = 100, active = True\<rparr>,
       ''m7'' \<mapsto> \<lparr>question = ''q'', creator = ''c'', deadline = 10, resolved = False, resolution = None, resolved_at = None, market_probability = 1 / 2, total_stake = 100, active = True\<rparr>,
       ''m8'' \<mapsto> \<lparr>question = ''q'', creator = ''c'', deadline = 10, resolved = False, resolution = None, resolved_at = None, market_probability = 1 / 2, total_stake = 100, active = True\<rparr>,
       ''m9'' \<mapsto> \<lparr>question = ''q'', creator = ''c'', deadline = 10, resolved = False, resolution = None, resolved_at = None, market_probability = 1 / 2, total_stake = 100, active = True\<rparr>,
       ''m10'' \<mapsto> \<lparr>question = ''q'', creator = ''c'', deadline = 10, resolved = False, resolution = None, resolved_at = None, market_probability = 1 / 2, total_stake = 0, active = True\<rparr>],
     bets =
      [\<lparr>bet_market_id = ''m0'', bet_user_id = ''u'', bet_stake = 100, bet_probability = 1 / 2\<rparr>,
       \<lparr>bet_market_id = ''m1'', bet_user_id = ''u'', bet_stake = 100, bet_probability = 1 / 2\<rparr>,
       \<lparr>bet_market_id = ''m2'', bet_user_id = ''u'', bet_stake = 100, bet_probability = 1 / 2\<rparr>,
       \<lparr>bet_market_id = ''m3'', bet_user_id = ''u'', bet_stake = 100, bet_probability = 1 / 2\<rparr>,
       \<lparr>bet_market_id = ''m4'', bet_user_id = ''u'', bet_stake = 100, bet_probability = 1 / 2\<rparr>,
       \<lparr>bet_market_id = ''m5'', bet_user_id = ''u'', bet_stake = 100, bet_probability = 1 / 2\<rparr>,
       \<lparr>bet_market_id = ''m6'', bet_user_id = ''u'', bet_stake = 100, bet_probability = 1 / 2\<rparr>,
       \<lparr>bet_market_id = ''m7'', bet_user_id = ''u'', bet_stake = 100, bet_probability = 1 / 2\<rparr>,
       \<lparr>bet_market_id = ''m8'', bet_user_id = ''u'', bet_stake = 100, bet_probability = 1 / 2\<rparr>,
       \<lparr>bet_market_id = ''m9'', bet_user_id = ''u'', bet_stake = 100, bet_probability = 1 / 2\<rparr>]\<rparr>"
  by (simp add: ex_insolvent_def initial_state_def predict_create_def createMarket_def
      placeBet_def getMarket_def getUser_def calculateStake_def
      getUserBet_def getMarketBets_def updateMarketProbability_def stake_total_def upsertBet_def
      updateMarket_def updateUser_def new_user_def Let_def)

lemma reachable_create_snd: "reachable st \<Longrightarrow> reachable (snd (predict_create now st m q c d))"
  by (rule reachable_create [OF _ prod.collapse [symmetric]])

lemma reachable_place_snd: "reachable st \<Longrightarrow> reachable (snd (placeBet now st m u d p))"
  by (rule reachable_place [OF _ prod.collapse [symmetric]])

lemma reachable_fold:
  assumes "\<And>x st. reachable st \<Longrightarrow> reachable (f x st)" "reachable st"
  shows "reachable (fold f xs st)"
  using assms(2) by (induction xs arbitrary: st) (simp_all add: assms(1))

lemma reachable_ex_insolvent: "reachable ex_insolvent"
  unfolding ex_insolvent_def
  by (intro reachable_create_snd reachable_fold reachable_place_snd reachable_init)

lemma new_user_available:
  assumes "bets_ok (bets st)" "users st u = None"
  shows "1000 \<le> availableBankroll st m u"
proof (cases "getUserBet st m u")
  case None
  then show ?thesis
    using assms(2) by (simp add: availableBankroll_def getUser_def new_user_def getUserBet_def)
next
  case (Some b)
  then have "b \<in> set (bets st)"
    by (auto simp: getUserBet_def split: list.splits dest: filter_eq_ConsD)
  then have "1 \<le> bet_stake b" using assms(1) by (simp add: bets_ok_def list_all_iff)
  then show ?thesis
    using assms(2) Some by (simp add: availableBankroll_def getUser_def new_user_def getUserBet_def)
qed

lemma ex_insolvent_available: "availableBankroll ex_insolvent ''m10'' ''u'' = 0"
  by (simp add: availableBankroll_def ex_insolvent_eval getUser_def getUserBet_def new_user_def)

lemma ex_insolvent_market:
  "getMarket ex_insolvent ''m10'' =
     Some \<lparr>question = ''q'', creator = ''c'', deadline = 10, resolved = False,
           resolution = None, resolved_at = None, market_probability = 1 / 2,
           total_stake = 0, active = True\<rparr>"
  by (simp add: ex_insolvent_eval getMarket_def)

lemma placeBet_probability_unit_interval:
  assumes "reachable st" "placeBet now st m u d p = (Inr r, st1)"
  shows "0 \<le> new_market_probability r \<and> new_market_probability r \<le> 1 \<and>
         (\<exists>row. markets st1 m = Some row \<and> market_probability row = new_market_probability r)"
proof -
  from placeBet_Inr [OF assms(2)] obtain mk np where
    p: "0 \<le> p" "p \<le> 1" and mk: "markets st m = Some mk"
    and np: "placeBet_probability_db (getMarketBets st m) u (calculateStake d) p = Some np"
    and r: "new_market_probability r = np"
    and st1: "st1 = placement_store st mk m u (calculateStake d) p np"
    by blast
  let ?others = "filter (\<lambda>bet. bet_user_id bet \<noteq> u) (getMarketBets st m)"
  have ok: "bets_ok (bets st)" using reachable_inv [OF assms(1)] by (simp add: store_inv_def)
  then have o: "\<forall>s\<in>set (map bet_stake ?others). 0 \<le> s"
    "\<forall>q\<in>set (map bet_probability ?others). 0 \<le> q \<and> q \<le> 1"
    by (auto simp: bets_ok_def list_all_iff getMarketBets_def)
  have "\<exists>x. updateMarketProbability (map bet_stake ?others) (map bet_probability ?others)
          (calculateStake d) p 0 0 = Some x \<and> 0 \<le> x \<and> x \<le> 1"
    using calculateStake_range [of d] p
    by (intro updateMarketProbability_bounds o) simp_all
  with np have "0 \<le> np \<and> np \<le> 1" by (auto simp: placeBet_probability_db_def Let_def)
  moreover obtain ts where "markets st1 = (markets st)(m \<mapsto> mk\<lparr>market_probability := np, total_stake := ts\<rparr>)"
    using placement_store_markets [OF mk] st1 by blast
  ultimately show ?thesis using r by simp
qed

lemma find_split_sum:
  assumes "distinct (map bet_user_id bs)" "find (\<lambda>bet. bet_user_id bet = u) bs = Some ob"
  shows "(\<Sum>b\<leftarrow>bs. g b) = g ob + (\<Sum>b\<leftarrow>filter (\<lambda>bet. bet_user_id bet \<noteq> u) bs. (g b :: 'a::comm_monoid_add))"
  using assms
proof (induction bs)
  case Nil
  then show ?case by simp
next
  case (Cons b bs)
  show ?case
  proof (cases "bet_user_id b = u")
    case True
    with Cons.prems have "ob = b" "\<forall>x\<in>set bs. bet_user_id x \<noteq> u" by (fastforce simp: image_iff)+
    then have "filter (\<lambda>bet. bet_user_id bet \<noteq> u) bs = bs" by simp
    with True \<open>ob = b\<close> show ?thesis by simp
  next
    case False
    with Cons show ?thesis by (simp add: add.left_commute)
  qed
qed

lemma find_none_filter:
  "find (\<lambda>bet. bet_user_id bet = u) bs = None \<Longrightarrow> filter (\<lambda>bet. bet_user_id bet \<noteq> u) bs = bs"
  by (simp add: find_None_iff)

lemma getUserBet_unique:
  assumes "distinct (map (\<lambda>b. (bet_market_id b, bet_user_id b)) (bets st))"
    and "getUserBet st m u = Some b"
  shows "b \<in> set (bets st) \<and> bet_market_id b = m \<and> bet_user_id b = u \<and>
         (\<forall>x\<in>set (bets st). bet_market_id x = m \<and> bet_user_id x = u \<longrightarrow> x = b)"
proof -
  from assms(2) obtain rest where
    "filter (\<lambda>b. bet_market_id b = m \<and> bet_user_id b = u) (bets st) = b # rest"
    by (auto simp: getUserBet_def split: list.splits)
  then have "b \<in> set (filter (\<lambda>b. bet_market_id b = m \<and> bet_user_id b = u) (bets st))"
    by simp
  then have b: "b \<in> set (bets st)" "bet_market_id b = m" "bet_user_id b = u" by simp_all
  have "inj_on (\<lambda>b. (bet_market_id b, bet_user_id b)) (set (bets st))"
    using assms(1) by (simp add: distinct_map)
  with b show ?thesis by (auto dest: inj_onD)
qed

lemma upsertBet_same:
  assumes "distinct (map (\<lambda>b. (bet_market_id b, bet_user_id b)) (bets st))"
    and "getUserBet st m u = Some b"
  shows "bets (upsertBet st m u (bet_stake b) (bet_probability b)) = bets st"
proof -
  note u = getUserBet_unique [OF assms]
  then have ex: "list_ex (\<lambda>b. bet_market_id b = m \<and> bet_user_id b = u) (bets st)"
    by (auto simp: list_ex_iff)
  have "overwrite m u (bet_stake b) (bet_probability b) x = x" if "x \<in> set (bets st)" for x
    using u that by (auto simp: overwrite_def)
  then have "map (overwrite m u (bet_stake b) (bet_probability b)) (bets st) = bets st"
    by (simp add: map_idI)
  with ex show ?thesis by (simp add: upsertBet_bets)
qed

lemma ex_bet_b_rebet:
  "\<exists>r. placeBet 3 ex_bet_b ''m'' ''a'' 40 (3 / 5) =
         (Inr r, snd (placeBet 3 ex_bet_b ''m'' ''a'' 40 (3 / 5)))"
proof -
  have "\<exists>r. fst (placeBet 3 ex_bet_b ''m'' ''a'' 40 (3 / 5)) = Inr r"
    by (simp add: ex_bet_b_eval placeBet_def getMarket_def getUser_def calculateStake_def
      getUserBet_def getMarketBets_def updateMarketProbability_def stake_total_def new_user_def
      Let_def)
  then show ?thesis by (metis prod.collapse)
qed

lemma ex_resolved_eval:
  "users ex_resolved ''a'' = Some (new_user\<lparr>bankroll := 1064, total_staked := 0, bets_placed := 1,
      bets_won := 1, accuracy := 1, total_profit := 24, biggest_win := 64,
      prediction_streak := 1, best_streak := 1\<rparr>) \<and>
   markets ex_resolved ''m'' = Some \<lparr>question = ''q'', creator = ''c'', deadline = 10, resolved = True,
                      resolution = Some True, resolved_at = Some 3, market_probability = 39 / 50,
                      total_stake = 100, active = True\<rparr> \<and>
   bets ex_resolved = bets ex_bet_b"
  by (simp add: ex_resolved_def ex_bet_b_eval predict_resolve_def getMarket_def getUser_def
      getMarketBets_def pay_bet_def settle_user_def payout_def bet_accuracy_def wasCorrect_def
      updateMarket_def updateUser_def new_user_def Let_def)

subsection \<open>The staked total on fault-free runs\<close>

lemma sum_list_filter_split:
  "(\<Sum>x\<leftarrow>filter P xs. f x) =
   (\<Sum>x\<leftarrow>filter (\<lambda>x. P x \<and> Q x) xs. f x) + (\<Sum>x\<leftarrow>filter (\<lambda>x. P x \<and> \<not> Q x) xs. (f x :: int))"
  by (induction xs) auto

lemma key_filter:
  assumes "distinct (map (\<lambda>b. (bet_market_id b, bet_user_id b)) (bets st))"
  shows "filter (\<lambda>b. bet_market_id b = m \<and> bet_user_id b = u) (bets st) =
         (case getUserBet st m u of None \<Rightarrow> [] | Some b \<Rightarrow> [b])"
proof (cases "getUserBet st m u")
  case None
  then show ?thesis by (simp add: getUserBet_def split: list.splits)
next
  case (Some b)
  note u = getUserBet_unique [OF assms Some]
  from Some obtain rest where
    f: "filter (\<lambda>b. bet_market_id b = m \<and> bet_user_id b = u) (bets st) = b # rest"
    by (auto simp: getUserBet_def split: list.splits)
  have "distinct (filter (\<lambda>b. bet_market_id b = m \<and> bet_user_id b = u) (bets st))"
    using assms by (simp add: distinct_map)
  then have d: "b \<notin> set rest" "distinct rest" using f by simp_all
  have "set rest \<subseteq> set (filter (\<lambda>b. bet_market_id b = m \<and> bet_user_id b = u) (bets st))"
    using f by auto
  then have "\<forall>x\<in>set rest. x = b" using u by auto
  with d have "rest = []" by (cases rest) auto
  with f Some show ?thesis by simp
qed

lemma open_stakes_split:
  assumes "distinct (map (\<lambda>b. (bet_market_id b, bet_user_id b)) (bets st))"
  shows "open_stakes st u =
     (\<Sum>b\<leftarrow>filter (\<lambda>b. bet_user_id b = u \<and> market_open st (bet_market_id b) \<and> bet_market_id b \<noteq> m) (bets st). bet_stake b)
     + (if market_open st m then stake_on st m u else 0)"
proof -
  let ?P = "\<lambda>b. (bet_user_id b = u \<and> market_open st (bet_market_id b)) \<and> \<not> bet_market_id b \<noteq> m"
  have "(\<Sum>b\<leftarrow>filter ?P (bets st). bet_stake b) = (if market_open st m then stake_on st m u else 0)"
  proof (cases "market_open st m")
    case True
    have "filter ?P (bets st) = filter (\<lambda>b. bet_market_id b = m \<and> bet_user_id b = u) (bets st)"
      using True by (intro filter_cong refl) auto
    then show ?thesis
      using True by (simp add: key_filter [OF assms] stake_on_def split: option.splits)
  next
    case False
    then have "filter ?P (bets st) = []"
      by (auto simp: filter_empty_conv)
    then show ?thesis using False by simp
  qed
  then show ?thesis
    unfolding open_stakes_def
    using sum_list_filter_split [of bet_stake "\<lambda>b. bet_user_id b = u \<and> market_open st (bet_market_id b)"
        "bets st" "\<lambda>b. bet_market_id b \<noteq> m"]
    by simp
qed

lemma open_stakes_rest:
  "bets_ok (bets st) \<Longrightarrow>
   open_stakes st u = rest_stakes st m u + (if market_open st m then stake_on st m u else 0)"
  using open_stakes_split [of st u m] by (simp add: bets_ok_def rest_stakes_def)

lemma fault_free_reachable: "fault_free_run st \<Longrightarrow> reachable st"
  by (induction rule: fault_free_run.induct) (auto intro: reachable.intros)

lemma rest_stakes_cong:
  assumes "filter (\<lambda>b. bet_market_id b \<noteq> m) (bets st1) = filter (\<lambda>b. bet_market_id b \<noteq> m) (bets st)"
    and "\<And>m'. m' \<noteq> m \<Longrightarrow> market_open st1 m' = market_open st m'"
  shows "rest_stakes st1 m u = rest_stakes st m u"
proof -
  have "filter (\<lambda>b. bet_user_id b = u \<and> market_open st1 (bet_market_id b) \<and> bet_market_id b \<noteq> m) (bets st1)
      = filter (\<lambda>b. bet_user_id b = u \<and> market_open st1 (bet_market_id b))
          (filter (\<lambda>b. bet_market_id b \<noteq> m) (bets st1))"
    by (simp add: conj_commute conj_left_commute)
  also have "\<dots> = filter (\<lambda>b. bet_user_id b = u \<and> market_open st1 (bet_market_id b))
          (filter (\<lambda>b. bet_market_id b \<noteq> m) (bets st))"
    by (simp only: assms(1))
  also have "\<dots> = filter (\<lambda>b. bet_user_id b = u \<and> market_open st (bet_market_id b))
          (filter (\<lambda>b. bet_market_id b \<noteq> m) (bets st))"
    by (rule filter_cong) (auto simp: assms(2))
  also have "\<dots> = filter (\<lambda>b. bet_user_id b = u \<and> market_open st (bet_market_id b) \<and> bet_market_id b \<noteq> m) (bets st)"
    by (simp add: conj_commute conj_left_commute)
  finally show ?thesis by (simp add: rest_stakes_def)
qed

lemma upsertBet_other_rows:
  "filter (\<lambda>b. bet_market_id b \<noteq> m) (bets (upsertBet st m u s p)) =
   filter (\<lambda>b. bet_market_id b \<noteq> m) (bets st)"
proof -
  have "filter (\<lambda>b. bet_market_id b \<noteq> m) (map (overwrite m u s p) bs)
      = filter (\<lambda>b. bet_market_id b \<noteq> m) bs" for bs
    by (induction bs) (auto simp: overwrite_def)
  then show ?thesis by (simp add: upsertBet_bets)
qed

lemma getUserBet_upsertBet:
  "map_option bet_stake (getUserBet (upsertBet st m u s p) m' x) =
     (if m' = m \<and> x = u then Some s else map_option bet_stake (getUserBet st m' x))"
proof (cases "list_ex (\<lambda>b. bet_market_id b = m \<and> bet_user_id b = u) (bets st)")
  case True
  have f: "filter (\<lambda>b. bet_market_id b = k \<and> bet_user_id b = y) (map (overwrite m u s p) bs)
      = map (overwrite m u s p) (filter (\<lambda>b. bet_market_id b = k \<and> bet_user_id b = y) bs)" for bs k y
    by (induction bs) simp_all
  show ?thesis
  proof (cases "m' = m \<and> x = u")
    case same: True
    from True obtain b rest where
      "filter (\<lambda>b. bet_market_id b = m \<and> bet_user_id b = u) (bets st) = b # rest"
      by (cases "filter (\<lambda>b. bet_market_id b = m \<and> bet_user_id b = u) (bets st)")
        (auto simp: list_ex_iff filter_empty_conv)
    moreover from this have "b \<in> set (filter (\<lambda>b. bet_market_id b = m \<and> bet_user_id b = u) (bets st))"
      by simp
    then have "bet_market_id b = m" "bet_user_id b = u" by simp_all
    ultimately show ?thesis
      using same True by (simp add: getUserBet_def upsertBet_bets f overwrite_def)
  next
    case False
    have "map (overwrite m u s p) (filter (\<lambda>b. bet_market_id b = m' \<and> bet_user_id b = x) (bets st))
        = filter (\<lambda>b. bet_market_id b = m' \<and> bet_user_id b = x) (bets st)"
      using False by (intro map_idI) (auto simp: overwrite_def)
    with False True show ?thesis
      by (auto simp: getUserBet_def upsertBet_bets f)
  qed
next
  case False
  then have "filter (\<lambda>b. bet_market_id b = m \<and> bet_user_id b = u) (bets st) = []"
    by (auto simp: list_ex_iff filter_empty_conv)
  with False show ?thesis
    by (auto simp: getUserBet_def upsertBet_bets split: list.splits)
qed

lemma stake_on_upsertBet:
  "stake_on (upsertBet st m u s p) m' x = (if m' = m \<and> x = u then s else stake_on st m' x)"
  using getUserBet_upsertBet [of st m u s p m' x]
  by (auto simp: stake_on_def split: option.splits)

lemma market_open_cong: "markets st1 = markets st \<Longrightarrow> market_open st1 m = market_open st m"
  by (simp add: market_open_def)

lemma open_stakes_cong:
  "bets st1 = bets st \<Longrightarrow> markets st1 = markets st \<Longrightarrow> open_stakes st1 u = open_stakes st u"
  by (simp add: open_stakes_def market_open_def)

lemma stake_on_cong: "bets st1 = bets st \<Longrightarrow> stake_on st1 m u = stake_on st m u"
  by (simp add: stake_on_def getUserBet_def)

lemma no_bets_open_stakes:
  assumes "list_all (\<lambda>b. users st (bet_user_id b) \<noteq> None) (bets st)" "users st u = None"
  shows "open_stakes st u = 0"
proof -
  have "filter (\<lambda>b. bet_user_id b = u \<and> market_open st (bet_market_id b)) (bets st) = []"
    using assms by (auto simp: filter_empty_conv list_all_iff)
  then show ?thesis by (simp add: open_stakes_def)
qed

lemma getUser_staked_inv:
  assumes "staked_inv st"
  shows "staked_inv (snd (getUser st u))"
proof (cases "users st u")
  case (Some row)
  then show ?thesis using assms by (simp add: getUser_def)
next
  case None
  let ?st = "snd (getUser st u)"
  have us: "users ?st = (users st)(u \<mapsto> new_user)" using None by (simp add: getUser_def)
  have o: "open_stakes ?st x = open_stakes st x" for x
    by (rule open_stakes_cong) simp_all
  have z: "open_stakes st u = 0"
    using assms None by (intro no_bets_open_stakes) (simp_all add: staked_inv_def)
  show ?thesis
    using assms z unfolding staked_inv_def o
    by (auto simp: us list_all_iff new_user_def)
qed

lemma placement_store_users:
  "users (placement_store st mk m u s p np) =
     (users (snd (getUser st u)))
       (u \<mapsto> (fst (getUser st u))\<lparr>total_staked := total_staked (fst (getUser st u))
            + (s - stake_on st m u)\<rparr>)"
  using getUser_after [of st u]
  by (simp add: placement_store_def Let_def updateUser_def stake_on_def)

lemma placement_store_market_open:
  assumes "markets st m = Some mk"
  shows "market_open (placement_store st mk m u s p np) m' = market_open st m'"
proof -
  obtain ts where "markets (placement_store st mk m u s p np) =
      (markets st)(m \<mapsto> mk\<lparr>market_probability := np, total_stake := ts\<rparr>)"
    using placement_store_markets [OF assms] by blast
  then show ?thesis using assms by (simp add: market_open_def)
qed

lemma placement_store_staked_inv:
  assumes inv: "store_inv st" and k: "staked_inv st"
    and mk: "markets st m = Some mk" and op: "market_open st m"
    and s: "1 \<le> s" "s \<le> 100" and p: "0 \<le> p" "p \<le> 1"
    and np: "placeBet_probability_db (getMarketBets st m) u s p = Some np"
  shows "staked_inv (placement_store st mk m u s p np)"
proof -
  let ?st0 = "snd (getUser st u)"
  let ?row0 = "fst (getUser st u)"
  let ?st1 = "placement_store st mk m u s p np"
  have k0: "staked_inv ?st0" using k by (rule getUser_staked_inv)
  have u0: "users ?st0 u = Some ?row0" by (rule getUser_after)
  have ok: "bets_ok (bets st)" using inv by (simp add: store_inv_def)
  have ok1: "bets_ok (bets ?st1)"
    using placement_store_inv [OF inv mk s p np] by (simp add: store_inv_def)
  have b1: "bets ?st1 = bets (upsertBet st m u s p)" by (rule placement_store_bets)
  have o0: "open_stakes ?st0 x = open_stakes st x" for x
    by (rule open_stakes_cong) simp_all
  have r: "rest_stakes ?st1 m x = rest_stakes st m x" for x
    by (rule rest_stakes_cong) (simp_all add: b1 upsertBet_other_rows placement_store_market_open [OF mk])
  have so: "stake_on ?st1 m x = (if x = u then s else stake_on st m x)" for x
    using stake_on_cong [OF b1, of m x] by (simp add: stake_on_upsertBet)
  have o1: "open_stakes ?st1 x = open_stakes st x - stake_on st m x + (if x = u then s else stake_on st m x)"
    for x
    using open_stakes_rest [OF ok1, of x m] open_stakes_rest [OF ok, of x m] op
    by (simp add: r so placement_store_market_open [OF mk])
  have t0: "total_staked ?row0 = open_stakes st u"
    using k0 u0 o0 by (simp add: staked_inv_def)
  have a: "list_all (\<lambda>b. users ?st1 (bet_user_id b) \<noteq> None) (bets ?st1)"
  proof -
    have "\<forall>b\<in>set (bets st). users ?st0 (bet_user_id b) \<noteq> None"
      using k0 by (simp add: staked_inv_def list_all_iff)
    moreover have "\<forall>b\<in>set (bets (upsertBet st m u s p)). b \<in> set (bets st) \<or> bet_user_id b = u
        \<or> (\<exists>b'\<in>set (bets st). bet_user_id b = bet_user_id b')"
      by (auto simp: upsertBet_bets)
    ultimately show ?thesis
      by (auto simp: b1 list_all_iff placement_store_users)
  qed
  have c: "total_staked row = open_stakes ?st1 x" if "users ?st1 x = Some row" for x row
  proof (cases "x = u")
    case True
    with that have "row = ?row0\<lparr>total_staked := total_staked ?row0 + (s - stake_on st m u)\<rparr>"
      by (simp add: placement_store_users)
    then show ?thesis using True t0 by (simp add: o1)
  next
    case False
    with that have "users ?st0 x = Some row" by (simp add: placement_store_users)
    then have "total_staked row = open_stakes st x" using k0 o0 by (simp add: staked_inv_def)
    then show ?thesis using False by (simp add: o1)
  qed
  show ?thesis unfolding staked_inv_def using a c by blast
qed

lemma placeBet_Inl_store:
  assumes "placeBet now st m u d p = (Inl e, st1)"
  shows "st1 = st \<or> st1 = snd (getUser st u)"
proof -
  obtain user st0 where g: "getUser st u = (user, st0)" by (cases "getUser st u")
  show ?thesis
    using assms
    by (auto simp: placeBet_def Let_def getMarket_def g split: if_splits option.splits)
qed

lemma placeBet_staked_inv:
  assumes "store_inv st" "staked_inv st" "market_open st m" "placeBet now st m u d p = (r, st1)"
  shows "staked_inv st1"
proof (cases r)
  case (Inl e)
  with assms(4) have "st1 = st \<or> st1 = snd (getUser st u)" by (simp add: placeBet_Inl_store)
  then show ?thesis using assms(2) getUser_staked_inv by auto
next
  case (Inr res)
  with assms(4) placeBet_Inr [of now st m u d p res st1]
  obtain mk np where "0 \<le> p" "p \<le> 1" "markets st m = Some mk"
    "placeBet_probability_db (getMarketBets st m) u (calculateStake d) p = Some np"
    "st1 = placement_store st mk m u (calculateStake d) p np"
    by blast
  then show ?thesis
    using placement_store_staked_inv [OF assms(1,2), of m mk "calculateStake d" p u np]
      assms(3) calculateStake_range [of d]
    by simp
qed

lemma settle_user_total_staked:
  "total_staked (settle_user outcome b user row) = total_staked user - bet_stake b"
  by (simp add: settle_user_def Let_def)

lemma pay_bet_users:
  assumes "users st (bet_user_id b) = Some row"
  shows "users (pay_bet (\<lambda>q. False) outcome st b) =
         (users st)(bet_user_id b \<mapsto> settle_user outcome b row row)"
  using assms by (simp add: pay_bet_def getUser_def updateUser_def)

lemma foldl_pay_bet_users:
  assumes "\<forall>b\<in>set bs. users st (bet_user_id b) \<noteq> None"
  shows "(users st x = None \<longrightarrow> users (foldl (pay_bet (\<lambda>q. False) outcome) st bs) x = None) \<and>
         (\<forall>row. users st x = Some row \<longrightarrow>
            (\<exists>row1. users (foldl (pay_bet (\<lambda>q. False) outcome) st bs) x = Some row1 \<and>
               total_staked row1 =
                 total_staked row - (\<Sum>b\<leftarrow>filter (\<lambda>b. bet_user_id b = x) bs. bet_stake b)))"
  using assms
proof (induction bs arbitrary: st)
  case Nil
  then show ?case by simp
next
  case (Cons b bs)
  from Cons.prems obtain rb where rb: "users st (bet_user_id b) = Some rb" by auto
  let ?st = "pay_bet (\<lambda>q. False) outcome st b"
  have us: "users ?st = (users st)(bet_user_id b \<mapsto> settle_user outcome b rb rb)"
    by (rule pay_bet_users [OF rb])
  have "\<forall>b'\<in>set bs. users ?st (bet_user_id b') \<noteq> None"
    using Cons.prems by (simp add: us)
  note ih = Cons.IH [OF this]
  show ?case
  proof (cases "bet_user_id b = x")
    case True
    then have "users ?st x = Some (settle_user outcome b rb rb)" by (simp add: us)
    with ih True rb show ?thesis
      by (auto simp: settle_user_total_staked)
  next
    case False
    then have "users ?st x = users st x" by (simp add: us)
    with ih False show ?thesis by simp
  qed
qed

lemma market_stake_sum:
  assumes "distinct (map (\<lambda>b. (bet_market_id b, bet_user_id b)) (bets st))"
  shows "(\<Sum>b\<leftarrow>filter (\<lambda>b. bet_user_id b = x) (getMarketBets st m). bet_stake b) = stake_on st m x"
proof -
  have "filter (\<lambda>b. bet_user_id b = x) (getMarketBets st m)
      = filter (\<lambda>b. bet_market_id b = m \<and> bet_user_id b = x) (bets st)"
    by (simp add: getMarketBets_def conj_commute)
  then show ?thesis
    by (simp add: key_filter [OF assms] stake_on_def split: option.splits)
qed

lemma predict_resolve_fault_free:
  assumes "predict_resolve (\<lambda>q. False) now st m outcome = (r, st1)"
  shows "st1 = st \<or>
    (\<exists>mk. markets st m = Some mk \<and> \<not> resolved mk \<and>
       st1 = updateMarket (foldl (pay_bet (\<lambda>q. False) outcome) st (getMarketBets st m)) m
               (\<lambda>row. row\<lparr>resolved := True, resolution := Some outcome, resolved_at := Some now\<rparr>))"
  using assms
  by (auto simp: predict_resolve_def Let_def getMarket_def list_ex_iff
      split: option.splits if_splits)

lemma predict_resolve_staked_inv:
  assumes inv: "store_inv st" and k: "staked_inv st"
    and res: "predict_resolve (\<lambda>q. False) now st m outcome = (r, st1)"
  shows "staked_inv st1"
proof -
  from predict_resolve_fault_free [OF res] show ?thesis
  proof
    assume "st1 = st"
    with k show ?thesis by simp
  next
    assume "\<exists>mk. markets st m = Some mk \<and> \<not> resolved mk \<and>
       st1 = updateMarket (foldl (pay_bet (\<lambda>q. False) outcome) st (getMarketBets st m)) m
               (\<lambda>row. row\<lparr>resolved := True, resolution := Some outcome, resolved_at := Some now\<rparr>)"
    then obtain mk where mk: "markets st m = Some mk" "\<not> resolved mk"
      and st1: "st1 = updateMarket (foldl (pay_bet (\<lambda>q. False) outcome) st (getMarketBets st m)) m
               (\<lambda>row. row\<lparr>resolved := True, resolution := Some outcome, resolved_at := Some now\<rparr>)"
      by blast
    let ?st = "foldl (pay_bet (\<lambda>q. False) outcome) st (getMarketBets st m)"
    have ok: "bets_ok (bets st)" using inv by (simp add: store_inv_def)
    then have d: "distinct (map (\<lambda>b. (bet_market_id b, bet_user_id b)) (bets st))"
      by (simp add: bets_ok_def)
    have b1: "bets st1 = bets st" by (simp add: st1)
    have m1: "markets st1 = (markets st)(m \<mapsto> mk\<lparr>resolved := True, resolution := Some outcome,
                 resolved_at := Some now\<rparr>)"
      using mk by (simp add: st1 updateMarket_def)
    have u1: "users st1 = users ?st" by (simp add: st1)
    have op: "market_open st m" using mk by (simp add: market_open_def)
    have cl: "\<not> market_open st1 m" by (simp add: market_open_def m1)
    have oth: "market_open st1 m' = market_open st m'" if "m' \<noteq> m" for m'
      using that by (simp add: market_open_def m1)
    have r: "rest_stakes st1 m x = rest_stakes st m x" for x
      by (rule rest_stakes_cong) (simp_all add: b1 oth)
    have o1: "open_stakes st1 x = open_stakes st x - stake_on st m x" for x
      using open_stakes_rest [of st1 x m] open_stakes_rest [OF ok, of x m] ok op cl
      by (simp add: r b1)
    have ex: "\<forall>b\<in>set (getMarketBets st m). users st (bet_user_id b) \<noteq> None"
      using k by (simp add: staked_inv_def list_all_iff getMarketBets_def)
    note f = foldl_pay_bet_users [OF ex, of _ outcome]
    have a: "list_all (\<lambda>b. users st1 (bet_user_id b) \<noteq> None) (bets st1)"
    proof -
      have "users st1 (bet_user_id b) \<noteq> None" if "b \<in> set (bets st)" for b
      proof -
        from that k obtain row where "users st (bet_user_id b) = Some row"
          by (auto simp: staked_inv_def list_all_iff)
        with f [of "bet_user_id b"] show ?thesis by (auto simp: u1)
      qed
      then show ?thesis by (simp add: b1 list_all_iff)
    qed
    have c: "total_staked row1 = open_stakes st1 x" if "users st1 x = Some row1" for x row1
    proof -
      from that f [of x] obtain row where row: "users st x = Some row"
        by (cases "users st x") (auto simp: u1)
      with f [of x] that have "total_staked row1 = total_staked row - stake_on st m x"
        by (auto simp: u1 market_stake_sum [OF d])
      moreover have "total_staked row = open_stakes st x"
        using k row by (simp add: staked_inv_def)
      ultimately show ?thesis by (simp add: o1)
    qed
    show ?thesis unfolding staked_inv_def using a c by blast
  qed
qed

lemma predict_create_staked_inv:
  assumes inv: "store_inv st" and k: "staked_inv st"
    and cr: "predict_create now st m q c d = (r, st1)"
  shows "staked_inv st1"
proof (cases r)
  case (Inl e)
  with cr have "st1 = st"
    by (auto simp: predict_create_def split: if_splits sum.splits)
  with k show ?thesis by simp
next
  case (Inr x)
  with cr have fresh: "markets st m = None"
    and b: "bets st1 = bets st"
    and ms: "\<exists>row. markets st1 = (markets st)(m \<mapsto> row)"
    and us: "\<forall>y. (users st1 y = None \<longleftrightarrow> users st y = None) \<and>
               (\<forall>row1. users st1 y = Some row1 \<longrightarrow>
                  (\<exists>row. users st y = Some row \<and> total_staked row1 = total_staked row))"
    by (auto simp: predict_create_def createMarket_def Let_def updateUser_def
        split: if_splits sum.splits option.splits)
  have ex: "\<forall>b\<in>set (bets st). bet_market_id b \<noteq> m"
    using inv fresh by (auto simp: store_inv_def list_all_iff)
  have "filter (\<lambda>b. bet_user_id b = y \<and> market_open st1 (bet_market_id b)) (bets st)
      = filter (\<lambda>b. bet_user_id b = y \<and> market_open st (bet_market_id b)) (bets st)" for y
    using ex ms by (intro filter_cong refl) (auto simp: market_open_def)
  then have o: "open_stakes st1 y = open_stakes st y" for y
    by (simp add: open_stakes_def b)
  show ?thesis
    using k us unfolding staked_inv_def o b list_all_iff
    by metis
qed

lemma fault_free_staked_inv: "fault_free_run st \<Longrightarrow> staked_inv st"
proof (induction rule: fault_free_run.induct)
  case run_init
  then show ?case by (simp add: staked_inv_def initial_state_def)
next
  case (run_stats st userId)
  then show ?case by (simp add: predict_stats_def getUser_staked_inv)
next
  case (run_create st now marketId q c d r st1)
  then show ?case
    using predict_create_staked_inv reachable_inv fault_free_reachable by blast
next
  case (run_place_open st market_id now user_id desired_amount p r st1)
  then show ?case
    using placeBet_staked_inv reachable_inv fault_free_reachable by blast
next
  case (run_resolve st now marketId outcome r st1)
  then show ?case
    using predict_resolve_staked_inv reachable_inv fault_free_reachable by blast
qed

lemma total_staked_is_open_stakes:
  "fault_free_run st \<Longrightarrow> users st u = Some row \<Longrightarrow> total_staked row = open_stakes st u"
  using fault_free_staked_inv by (simp add: staked_inv_def)

subsection \<open>Facts about double-precision rounding\<close>

text \<open>
  Rounding to the nearest double never crosses an integer below \<open>2 ^ 53\<close>, so such
  integers are doubles; and below 256 it moves a number by at most \<open>2 ^ -46\<close>.
\<close>

lemma rhe_ge: "of_int G \<le> y \<Longrightarrow> G \<le> rhe y"
proof -
  assume "of_int G \<le> y"
  then have "G \<le> \<lfloor>y\<rfloor>" by (simp add: le_floor_iff)
  then show ?thesis by (simp add: rhe_def Let_def)
qed

lemma rhe_le: "y \<le> of_int G \<Longrightarrow> rhe y \<le> G"
proof -
  assume a: "y \<le> of_int G"
  show ?thesis
  proof (cases "y = of_int \<lfloor>y\<rfloor>")
    case True
    then have "y - of_int \<lfloor>y\<rfloor> = 0" by simp
    moreover have "\<lfloor>y\<rfloor> \<le> G" using a by (simp add: floor_le_iff)
    ultimately show ?thesis by (simp add: rhe_def Let_def)
  next
    case False
    then have "of_int \<lfloor>y\<rfloor> < y" using of_int_floor_le [of y] by linarith
    with a have "(of_int \<lfloor>y\<rfloor> :: rat) < of_int G" by linarith
    then have "\<lfloor>y\<rfloor> < G" by simp
    then show ?thesis by (simp add: rhe_def Let_def)
  qed
qed

lemma rhe_error: "\<bar>of_int (rhe y) - y\<bar> \<le> 1 / 2"
proof -
  have "of_int \<lfloor>y\<rfloor> \<le> y" "y < of_int \<lfloor>y\<rfloor> + 1" by linarith+
  then show ?thesis by (auto simp: rhe_def Let_def)
qed

lemma exponent_le:
  assumes "0 < x" "x < 2 ^ n" "0 < n"
  shows "exponent x \<le> int n - 1"
proof (cases "1 \<le> x")
  case True
  let ?m = "\<lfloor>x\<rfloor>"
  have m: "0 < ?m" using True by simp
  have "x < of_int (2 ^ n)" using assms(2) by simp
  then have "?m < 2 ^ n" by (simp only: floor_less_iff)
  moreover have "2 ^ nat (bitlen ?m - 1) \<le> ?m" using bitlen_bounds [OF m] by simp
  ultimately have lt: "(2 :: int) ^ nat (bitlen ?m - 1) < 2 ^ n" by linarith
  have "(1 :: int) < 2" by simp
  from power_less_imp_less_exp [OF this lt] have "nat (bitlen ?m - 1) < n" .
  then show ?thesis using True by (simp add: exponent_def)
next
  case False
  then show ?thesis
    using bitlen_nonneg [of "\<lceil>1 / x\<rceil> - 1"] assms(3) by (simp add: exponent_def)
qed

lemma fl_grid:
  assumes "0 < x" "x < 2 ^ n" "0 < n" "n \<le> 53"
  shows "\<exists>k :: nat. 53 - n \<le> k \<and> fl x = of_int (rhe (x * 2 ^ k)) / 2 ^ k"
proof -
  define e where "e = max (exponent \<bar>x\<bar>) (- 1022)"
  have e: "e \<le> int n - 1" using exponent_le [OF assms(1-3)] assms(1,3) by (simp add: e_def)
  define k where "k = nat (52 - e)"
  have ek: "e - 52 = - int k" using e assms(4) by (simp add: k_def)
  have kn: "53 - n \<le> k" using e assms(4) by (simp add: k_def)
  have q: "(2 :: rat) powi (e - 52) = 1 / 2 ^ k"
    by (simp add: ek power_int_minus_divide)
  have "fl x = of_int (rhe (x / (2 powi (e - 52)))) * 2 powi (e - 52)"
    using assms(1) by (simp add: fl_def e_def Let_def)
  then have "fl x = of_int (rhe (x * 2 ^ k)) / 2 ^ k" by (simp add: q)
  with kn show ?thesis by blast
qed

lemma fl_error:
  assumes "0 \<le> x" "x < 2 ^ 8"
  shows "\<bar>fl x - x\<bar> \<le> 1 / 2 ^ 46"
proof (cases "x = 0")
  case True
  then show ?thesis by (simp add: fl_def)
next
  case False
  then have "0 < x" using assms(1) by simp
  from fl_grid [OF this assms(2)] obtain k :: nat where
    kn: "45 \<le> k" and k: "fl x = of_int (rhe (x * 2 ^ k)) / 2 ^ k" by auto
  have "fl x - x = (of_int (rhe (x * 2 ^ k)) - x * 2 ^ k) / 2 ^ k"
    by (simp add: k diff_divide_distrib)
  then have "\<bar>fl x - x\<bar> = \<bar>of_int (rhe (x * 2 ^ k)) - x * 2 ^ k\<bar> / 2 ^ k"
    by (simp add: abs_divide)
  also have "\<dots> \<le> (1 / 2) / 2 ^ k"
    by (rule divide_right_mono [OF rhe_error]) simp
  also have "\<dots> = 1 / 2 ^ (k + 1)" by simp
  also have "\<dots> \<le> 1 / 2 ^ 46"
  proof -
    have "(2 :: rat) ^ 46 \<le> 2 ^ (k + 1)" using kn by (intro power_increasing) simp_all
    then show ?thesis by (intro divide_left_mono) simp_all
  qed
  finally show ?thesis .
qed

lemma fl_ge_int:
  assumes "0 \<le> x" "x < 2 ^ 53" "of_int g \<le> x"
  shows "of_int g \<le> fl x"
proof (cases "x = 0")
  case True
  then show ?thesis using assms(3) by (simp add: fl_def)
next
  case False
  then have "0 < x" using assms(1) by simp
  from fl_grid [OF this assms(2)] obtain k :: nat where
    k: "fl x = of_int (rhe (x * 2 ^ k)) / 2 ^ k" by auto
  have "of_int (g * 2 ^ k) \<le> x * 2 ^ k" using assms(3) by simp
  then have "g * 2 ^ k \<le> rhe (x * 2 ^ k)" by (rule rhe_ge)
  then have "(of_int (g * 2 ^ k) :: rat) \<le> of_int (rhe (x * 2 ^ k))" by (simp only: of_int_le_iff)
  then have "(of_int g :: rat) * 2 ^ k \<le> of_int (rhe (x * 2 ^ k))" by simp
  then show ?thesis by (simp add: k pos_le_divide_eq)
qed

lemma fl_le_int:
  assumes "0 \<le> x" "x < 2 ^ 53" "x \<le> of_int g"
  shows "fl x \<le> of_int g"
proof (cases "x = 0")
  case True
  then show ?thesis using assms(3) by (simp add: fl_def)
next
  case False
  then have "0 < x" using assms(1) by simp
  from fl_grid [OF this assms(2)] obtain k :: nat where
    k: "fl x = of_int (rhe (x * 2 ^ k)) / 2 ^ k" by auto
  have "x * 2 ^ k \<le> of_int (g * 2 ^ k)" using assms(3) by simp
  then have "rhe (x * 2 ^ k) \<le> g * 2 ^ k" by (rule rhe_le)
  then have "(of_int (rhe (x * 2 ^ k)) :: rat) \<le> of_int (g * 2 ^ k)" by (simp only: of_int_le_iff)
  then have "(of_int (rhe (x * 2 ^ k)) :: rat) \<le> of_int g * 2 ^ k" by simp
  then show ?thesis by (simp add: k pos_divide_le_eq)
qed

lemma fl_of_int:
  assumes "0 \<le> n" "n < 2 ^ 53"
  shows "fl (of_int n) = of_int n"
proof -
  have a: "(0 :: rat) \<le> of_int n" using assms(1) by simp
  have "(of_int n :: rat) < of_int (2 ^ 53)" using assms(2) by (simp only: of_int_less_iff)
  then have b: "(of_int n :: rat) < 2 ^ 53" by simp
  show ?thesis using fl_ge_int [OF a b, of n] fl_le_int [OF a b, of n] by simp
qed

lemma fl_unit:
  assumes "0 \<le> x" "x \<le> 1"
  shows "0 \<le> fl x" "fl x \<le> 1" "\<bar>fl x - x\<bar> \<le> 1 / 2 ^ 46"
proof -
  have b: "x < 2 ^ 53" "x < 2 ^ 8" using assms(2) by simp_all
  show "0 \<le> fl x" using fl_ge_int [OF assms(1) b(1), of 0] assms(1) by simp
  show "fl x \<le> 1" using fl_le_int [OF assms(1) b(1), of 1] assms(2) by simp
  show "\<bar>fl x - x\<bar> \<le> 1 / 2 ^ 46" by (rule fl_error [OF assms(1) b(2)])
qed

subsection \<open>The base model is the exact instance\<close>

lemma reduce_weighted_with_exact: "reduce_weighted_with (\<lambda>x. x) = reduce_weighted"
proof (intro ext)
  fix acc ss ps
  show "reduce_weighted_with (\<lambda>x. x) acc ss ps = reduce_weighted acc ss ps"
    by (induction acc ss ps rule: reduce_weighted.induct) simp_all
qed

lemma updateMarketProbability_with_exact:
  "updateMarketProbability_with (\<lambda>x. x) = updateMarketProbability"
  unfolding updateMarketProbability_with_def updateMarketProbability_def reduce_weighted_with_exact
  by (rule refl)

lemma placeBet_with_exact: "placeBet_with (\<lambda>x. x) (\<lambda>x. x) = placeBet"
  unfolding placeBet_with_def placeBet_def updateMarketProbability_with_exact
  by (rule refl)

lemma payout_with_exact: "payout_with (\<lambda>x. x) = payout"
  by (intro ext) (simp add: payout_with_def payout_def bet_accuracy_def Let_def)

lemma placeBet_probability_db_with_exact:
  "placeBet_probability_db_with (\<lambda>x. x) = placeBet_probability_db"
  unfolding placeBet_probability_db_with_def placeBet_probability_db_def
    updateMarketProbability_with_exact
  by (rule refl)

lemma placeBet_probability_memory_with_exact:
  "placeBet_probability_memory_with (\<lambda>x. x) = placeBet_probability_memory"
  unfolding placeBet_probability_memory_with_def placeBet_probability_memory_def
    updateMarketProbability_with_exact
  by (rule refl)



lemma placeBet_call_in_range:
  assumes "reachable st"
  shows "(\<forall>s\<in>set (map bet_stake (filter (\<lambda>bet. bet_user_id bet \<noteq> user_id)
                                   (getMarketBets st market_id))). 0 \<le> s)
         \<and> 1 \<le> calculateStake desired_amount"
proof -
  have "bets_ok (bets st)" using reachable_inv [OF assms] by (simp add: store_inv_def)
  then have "\<forall>b\<in>set (bets st). 1 \<le> bet_stake b" by (simp add: bets_ok_def list_all_iff)
  then show ?thesis
    using calculateStake_range [of desired_amount] by (auto simp: getMarketBets_def)
qed

subsection \<open>Payouts in double precision\<close>

lemma payout_with_fl_bounds:
  fixes bet :: bet and outcome :: bool
  assumes "1 \<le> bet_stake bet" "bet_stake bet \<le> 100"
    and "0 \<le> bet_probability bet" "bet_probability bet \<le> 1"
  defines "z \<equiv> fl (of_int (bet_stake bet)
             * fl (1 + (if outcome then fl (bet_probability bet) else fl (1 - fl (bet_probability bet)))))"
  shows "of_int (bet_stake bet) \<le> z"
    and "\<bar>z - of_int (bet_stake bet) * (1 + bet_accuracy outcome bet)\<bar> \<le> 301 / 2 ^ 46"
proof -
  define s :: rat where "s = of_int (bet_stake bet)"
  define p where "p = bet_probability bet"
  define a where "a = (if outcome then fl p else fl (1 - fl p))"
  define ax where "ax = bet_accuracy outcome bet"
  define t where "t = fl (1 + a)"
  define d :: rat where "d = 1 / 2 ^ 46"
  have z: "z = fl (s * t)" by (simp add: z_def s_def t_def a_def p_def)
  have s: "1 \<le> s" "s \<le> 100" using assms(1,2) by (simp_all add: s_def)
  have p: "0 \<le> fl p" "fl p \<le> 1" "\<bar>fl p - p\<bar> \<le> d"
    using fl_unit [of p] assms(3,4) by (simp_all add: p_def d_def)
  have q: "0 \<le> fl (1 - fl p)" "fl (1 - fl p) \<le> 1" "\<bar>fl (1 - fl p) - (1 - fl p)\<bar> \<le> d"
    using fl_unit [of "1 - fl p"] p(1,2) by (simp_all add: d_def)
  have a: "0 \<le> a" "a \<le> 1" using p q by (simp_all add: a_def)
  have ae: "\<bar>a - ax\<bar> \<le> 2 * d"
  proof (cases outcome)
    case True
    then show ?thesis using p(3) by (simp add: a_def ax_def bet_accuracy_def p_def d_def)
  next
    case False
    have "a - ax = (fl (1 - fl p) - (1 - fl p)) - (fl p - p)"
      using False by (simp add: a_def ax_def bet_accuracy_def p_def)
    then show ?thesis using p(3) q(3) by linarith
  qed
  have t0: "0 \<le> 1 + a" "1 + a < 2 ^ 53" "1 + a < 2 ^ 8" using a by simp_all
  have t: "1 \<le> t" "t \<le> 2"
    using fl_ge_int [OF t0(1,2), of 1] fl_le_int [OF t0(1,2), of 2] a by (simp_all add: t_def)
  have te: "\<bar>t - (1 + a)\<bar> \<le> d" unfolding t_def d_def by (rule fl_error [OF t0(1,3)])
  have st: "s \<le> s * t" "s * t \<le> 200"
  proof -
    have "s * 1 \<le> s * t" using s(1) t(1) by (intro mult_left_mono) simp_all
    then show "s \<le> s * t" by simp
    have "s * t \<le> 100 * 2" using s t by (intro mult_mono) simp_all
    then show "s * t \<le> 200" by simp
  qed
  have st0: "0 \<le> s * t" "s * t < 2 ^ 53" "s * t < 2 ^ 8" using st s(1) by simp_all
  have "of_int (bet_stake bet) \<le> s * t" using st(1) by (simp add: s_def)
  from fl_ge_int [OF st0(1,2) this] show "of_int (bet_stake bet) \<le> z" by (simp add: z)
  have ze: "\<bar>z - s * t\<bar> \<le> d" unfolding z d_def by (rule fl_error [OF st0(1,3)])
  have "z - s * (1 + ax) = (z - s * t) + s * (t - (1 + a)) + s * (a - ax)"
    by (simp add: algebra_simps)
  then have "\<bar>z - s * (1 + ax)\<bar> \<le> \<bar>z - s * t\<bar> + \<bar>s * (t - (1 + a))\<bar> + \<bar>s * (a - ax)\<bar>"
    by linarith
  moreover have "\<bar>s * (t - (1 + a))\<bar> \<le> 100 * d"
  proof -
    have "\<bar>s * (t - (1 + a))\<bar> = s * \<bar>t - (1 + a)\<bar>" using s(1) by (simp add: abs_mult)
    also have "\<dots> \<le> 100 * d" using s te by (intro mult_mono) simp_all
    finally show ?thesis .
  qed
  moreover have "\<bar>s * (a - ax)\<bar> \<le> 100 * (2 * d)"
  proof -
    have "\<bar>s * (a - ax)\<bar> = s * \<bar>a - ax\<bar>" using s(1) by (simp add: abs_mult)
    also have "\<dots> \<le> 100 * (2 * d)" using s ae by (intro mult_mono) simp_all
    finally show ?thesis .
  qed
  ultimately have "\<bar>z - s * (1 + ax)\<bar> \<le> 301 * d" using ze by linarith
  then show "\<bar>z - of_int (bet_stake bet) * (1 + bet_accuracy outcome bet)\<bar> \<le> 301 / 2 ^ 46"
    by (simp add: s_def ax_def d_def)
qed

lemma floor_near_grid:
  fixes z :: rat
  assumes "\<bar>z - of_int M / 10000\<bar> < 1 / 10000"
  shows "\<lfloor>of_int M / 10000 :: rat\<rfloor> - 1 \<le> \<lfloor>z\<rfloor>" and "\<lfloor>z\<rfloor> \<le> \<lfloor>of_int M / 10000 :: rat\<rfloor>"
proof -
  define N where "N = \<lfloor>of_int M / 10000 :: rat\<rfloor>"
  have N: "N = M div 10000"
    unfolding N_def using floor_divide_of_int_eq [of M 10000, where ?'a = rat] by simp
  have lo: "10000 * N \<le> M" and hi: "M + 1 \<le> 10000 * (N + 1)" unfolding N by presburger+
  have "(of_int (10000 * N) :: rat) \<le> of_int M" using lo by (simp only: of_int_le_iff)
  then have lo': "(of_int N :: rat) \<le> of_int M / 10000" by simp
  have "(of_int (M + 1) :: rat) \<le> of_int (10000 * (N + 1))" using hi by (simp only: of_int_le_iff)
  then have hi': "(of_int M + 1) / 10000 \<le> (of_int N :: rat) + 1" by simp
  have "z < of_int M / 10000 + 1 / 10000" using assms by linarith
  then have "z < (of_int M + 1) / 10000" by (simp only: add_divide_distrib)
  then have "z < of_int N + 1" using hi' by linarith
  then have "\<lfloor>z\<rfloor> \<le> N" by (simp add: floor_le_iff)
  then show "\<lfloor>z\<rfloor> \<le> \<lfloor>of_int M / 10000 :: rat\<rfloor>" by (simp add: N_def)
  have "of_int M / 10000 - 1 / 10000 < z" using assms by linarith
  then have "of_int N - 1 < z" using lo' by linarith
  then have "of_int (N - 1) \<le> z" by simp
  then have "N - 1 \<le> \<lfloor>z\<rfloor>" by (simp only: le_floor_iff)
  then show "\<lfloor>of_int M / 10000 :: rat\<rfloor> - 1 \<le> \<lfloor>z\<rfloor>" by (simp add: N_def)
qed

lemma payout_examples:
  "\<lfloor>fl (50 * fl (1 + fl (4 / 5)))\<rfloor> = 90"
  "\<lfloor>fl (50 * fl (1 + fl (1 - fl (4 / 5))))\<rfloor> = 60"
  by code_simp+

subsection \<open>The two placement variants in the base model\<close>

lemma placeBet_probability_with_no_bet:
  "find (\<lambda>bet. bet_user_id bet = user_id) market_bets = None \<Longrightarrow>
   placeBet_probability_memory_with rnd market_bets user_id stake probability =
   placeBet_probability_db_with rnd market_bets user_id stake probability"
  by (simp add: placeBet_probability_memory_with_def placeBet_probability_db_with_def
      find_none_filter)

lemma placement_variants_exact:
  assumes "distinct (map bet_user_id market_bets)"
    and "list_all (\<lambda>b. 1 \<le> bet_stake b) market_bets"
  shows "placeBet_probability_memory market_bets user_id (calculateStake desired_amount) probability =
         placeBet_probability_db market_bets user_id (calculateStake desired_amount) probability"
proof (cases "find (\<lambda>bet. bet_user_id bet = user_id) market_bets")
  case None
  then show ?thesis
    by (simp add: placeBet_probability_memory_def placeBet_probability_db_def find_none_filter)
next
  case (Some ob)
  let ?others = "filter (\<lambda>bet. bet_user_id bet \<noteq> user_id) market_bets"
  let ?s = "calculateStake desired_amount"
  have s: "1 \<le> ?s" using calculateStake_range [of desired_amount] by simp
  have o: "\<forall>b\<in>set ?others. 1 \<le> bet_stake b" using assms(2) by (simp add: list_all_iff)
  have ob: "1 \<le> bet_stake ob"
    using Some assms(2) by (auto simp: find_Some_iff list_all_iff)
  have t: "(\<Sum>b\<leftarrow>market_bets. bet_stake b) = bet_stake ob + (\<Sum>b\<leftarrow>?others. bet_stake b)"
    by (rule find_split_sum [OF assms(1) Some])
  have w: "(\<Sum>b\<leftarrow>market_bets. of_int (bet_stake b) * bet_probability b)
      = of_int (bet_stake ob) * bet_probability ob + (\<Sum>b\<leftarrow>?others. of_int (bet_stake b) * bet_probability b)"
    by (rule find_split_sum [OF assms(1) Some])
  have to: "0 \<le> (\<Sum>b\<leftarrow>?others. bet_stake b)"
    using sum_list_pos_stakes [OF o] by linarith
  have "placeBet_probability_memory market_bets user_id ?s probability =
        Some (((\<Sum>b\<leftarrow>?others. of_int (bet_stake b) * bet_probability b) + of_int ?s * probability)
               / of_int ((\<Sum>b\<leftarrow>?others. bet_stake b) + ?s))"
    using ob to s
    by (simp add: placeBet_probability_memory_def Some updateMarketProbability_def
        stake_total_sum_list reduce_weighted_parallel zip_map_sum t w Let_def)
  also have "\<dots> = placeBet_probability_db market_bets user_id ?s probability"
    unfolding placeBet_probability_db_def Let_def
    by (rule db_probability_mean [OF o s, symmetric])
  finally show ?thesis .
qed

subsection \<open>Replacing a bet\<close>

lemma replace_same_bet_exact:
  assumes "reachable st"
    and "getUserBet st market_id user_id = Some b"
    and "calculateStake desired_amount = bet_stake b"
    and "probability = bet_probability b"
    and "placeBet now st market_id user_id desired_amount probability = (Inr r, st1)"
  shows "\<exists>row row1. markets st market_id = Some row \<and> markets st1 market_id = Some row1 \<and>
           total_stake row1 = total_stake row \<and>
           market_probability row1 = market_probability row \<and>
           total_staked (fst (getUser st1 user_id)) = total_staked (fst (getUser st user_id))"
proof -
  from placeBet_Inr [OF assms(5)] obtain mk np where
    mk: "markets st market_id = Some mk"
    and np: "placeBet_probability_db (getMarketBets st market_id) user_id
               (calculateStake desired_amount) probability = Some np"
    and st1: "st1 = placement_store st mk market_id user_id (calculateStake desired_amount) probability np"
    by blast
  have inv: "store_inv st" using assms(1) by (rule reachable_inv)
  then have ok: "bets_ok (bets st)" by (simp add: store_inv_def)
  then have d: "distinct (map (\<lambda>b. (bet_market_id b, bet_user_id b)) (bets st))"
    by (simp add: bets_ok_def)
  note u = getUserBet_unique [OF d assms(2)]
  have same: "bets (upsertBet st market_id user_id (calculateStake desired_amount) probability) = bets st"
    using upsertBet_same [OF d assms(2)] assms(3,4) by simp
  have s: "1 \<le> calculateStake desired_amount" using calculateStake_range [of desired_amount] by simp
  have "np = stake_weighted_mean (getMarketBets
          (upsertBet st market_id user_id (calculateStake desired_amount) probability) market_id)"
    using stake_weighted_mean_upsert [OF ok s, of market_id user_id probability] np by simp
  also have "\<dots> = stake_weighted_mean (getMarketBets st market_id)"
    by (simp add: getMarketBets_cong [OF same])
  also have "\<dots> = market_probability mk"
  proof -
    have "getMarketBets st market_id \<noteq> []"
      using u by (auto simp: getMarketBets_def filter_empty_conv)
    with inv mk show ?thesis by (simp add: store_inv_def)
  qed
  finally have p: "np = market_probability mk" .
  have m1: "markets st1 market_id =
      Some (mk\<lparr>market_probability := np,
               total_stake := total_stake mk - bet_stake b + calculateStake desired_amount\<rparr>)"
    using mk assms(2) by (simp add: st1 placement_store_def updateMarket_def Let_def)
  have u1: "users st1 user_id =
      Some ((fst (getUser st user_id))\<lparr>total_staked := total_staked (fst (getUser st user_id))
               + (calculateStake desired_amount - bet_stake b)\<rparr>)"
    using assms(2) getUser_after [of st user_id]
    by (simp add: st1 placement_store_def updateUser_def Let_def)
  show ?thesis
    using mk m1 u1 p assms(3) by (simp add: getUser_def)
qed

lemma reduce_weighted_with_parallel:
  "length ps = length ss \<Longrightarrow> reduce_weighted_with rnd (Some a) ss ps \<noteq> None"
proof (induction ss arbitrary: a ps)
  case Nil
  then show ?case by simp
next
  case (Cons s ss)
  then obtain p ps' where "ps = p # ps'" "length ps' = length ss" by (cases ps) auto
  with Cons.IH show ?case by simp
qed

lemma updateMarketProbability_with_parallel:
  "length ps = length ss \<Longrightarrow> updateMarketProbability_with rnd ss ps ns np os op \<noteq> None"
  using reduce_weighted_with_parallel [of ps ss rnd 0]
  by (auto simp: updateMarketProbability_with_def Let_def simp del: not_None_eq)

lemma placeBet_with_no_persistence_failure:
  "fst (placeBet_with rnd dec now st market_id user_id desired_amount probability)
     \<noteq> Inl PersistenceFailure"
proof -
  obtain user st0 where g: "getUser st user_id = (user, st0)" by (cases "getUser st user_id")
  have "updateMarketProbability_with rnd
          (map bet_stake (filter (\<lambda>bet. bet_user_id bet \<noteq> user_id) (getMarketBets st0 market_id)))
          (map (\<lambda>bet. rnd (bet_probability bet))
             (filter (\<lambda>bet. bet_user_id bet \<noteq> user_id) (getMarketBets st0 market_id)))
          (calculateStake desired_amount) probability 0 0 \<noteq> None"
    by (rule updateMarketProbability_with_parallel) simp
  then show ?thesis
    by (auto simp: placeBet_with_def Let_def g split: option.splits)
qed




section \<open>The claims\<close>

subsection \<open>C1: the recomputed probability\<close>



subsection \<open>C2: resolution is not atomic\<close>

text \<open>
  C2 asks that a resolution is applied as a whole or not at all. The resolve branch
  issues one \<^verbatim>\<open>UPDATE users\<close> per bet and then the \<^verbatim>\<open>UPDATE markets\<close>, outside
  any transaction (\<^verbatim>\<open>placeBet\<close> brackets its writes with \<^verbatim>\<open>BEGIN\<close> and
  \<^verbatim>\<open>COMMIT\<close>). In the example store, when the update of \<open>b\<close> throws, the handler
  reports the failure, yet \<open>a\<close> has been paid 64 on top of 1000, \<open>b\<close> has not been
  paid, and the market is still unresolved.
\<close>

theorem resolution_partially_applied:
  "fst (predict_resolve (\<lambda>q. q = UpdateUser ''b'') 3 ex_bet_b ''m'' True) = Inl PersistenceFailure \<and>
   map_option bankroll (users ex_bet_b ''a'') = Some 1000 \<and>
   map_option bankroll (users (snd (predict_resolve (\<lambda>q. q = UpdateUser ''b'') 3 ex_bet_b ''m'' True)) ''a'')
     = Some 1064 \<and>
   map_option bankroll (users (snd (predict_resolve (\<lambda>q. q = UpdateUser ''b'') 3 ex_bet_b ''m'' True)) ''b'')
     = Some 1000 \<and>
   map_option resolved (markets (snd (predict_resolve (\<lambda>q. q = UpdateUser ''b'') 3 ex_bet_b ''m'' True)) ''m'')
     = Some False"
  by (simp add: ex_bet_b_eval predict_resolve_def getMarket_def getUser_def
      getMarketBets_def pay_bet_def settle_user_def payout_def bet_accuracy_def wasCorrect_def
      updateMarket_def updateUser_def new_user_def Let_def)

subsection \<open>C3: a placement the bankroll does not cover\<close>

text \<open>
  C3, as the code has it. In a reachable store, a call of \<^verbatim>\<open>placeBet\<close> whose
  clamped stake exceeds the available bankroll fails and leaves the store as it was. The error is that of
  the first check that fires: an invalid probability, a missing or inactive market
  and an expired market are reported before the bankroll is looked at, and
  \<open>InsufficientBankroll\<close> with the available bankroll is the error when those three
  checks pass.
\<close>

theorem placeBet_insolvent_unchanged:
  assumes "reachable st"
    and "calculateStake desired_amount > availableBankroll st market_id user_id"
  shows "placeBet now st market_id user_id desired_amount probability =
         (Inl (placement_error now st market_id user_id probability), st)"
proof -
  have "bets_ok (bets st)"
    using reachable_inv [OF assms(1)] by (simp add: store_inv_def)
  then have "users st user_id \<noteq> None"
    using new_user_available [of st user_id market_id] assms(2)
      calculateStake_range [of desired_amount] by force
  then obtain row where "users st user_id = Some row" by blast
  then have g: "getUser st user_id = (row, st)" by (rule getUser_existing)
  show ?thesis
    using assms(2)
    by (simp add: placeBet_def placement_error_def availableBankroll_def g Let_def
        split: option.splits)
qed

theorem placeBet_insolvent_unchanged_witness:
  "calculateStake 5 > availableBankroll ex_insolvent ''m10'' ''u'' \<and>
   placeBet 0 ex_insolvent ''m10'' ''u'' 5 (1 / 2) = (Inl (InsufficientBankroll 0), ex_insolvent)"
proof -
  have s: "calculateStake 5 > availableBankroll ex_insolvent ''m10'' ''u''"
    by (simp add: ex_insolvent_available calculateStake_def)
  have e: "placement_error 0 ex_insolvent ''m10'' ''u'' (1 / 2) = InsufficientBankroll 0"
    by (simp add: placement_error_def ex_insolvent_available ex_insolvent_market)
  show ?thesis
    using placeBet_insolvent_unchanged [OF reachable_ex_insolvent s, of 0 "1 / 2"] s
    by (simp add: e)
qed

text \<open>
  C3 as it is stated fails on the error reported: the user of the reachable store
  \<open>ex_insolvent\<close> has nothing available, and \<^verbatim>\<open>/predict bet m10 150 5\<close>, a stake of
  5 at probability 1.5, is refused for the probability.
\<close>

theorem placeBet_insolvent_other_error:
  "reachable ex_insolvent \<and>
   calculateStake 5 > availableBankroll ex_insolvent ''m10'' ''u'' \<and>
   placeBet 0 ex_insolvent ''m10'' ''u'' 5 (3 / 2) = (Inl InvalidProbability, ex_insolvent) \<and>
   placeBet 0 ex_insolvent ''m10'' ''u'' 5 (3 / 2)
     \<noteq> (Inl (InsufficientBankroll (availableBankroll ex_insolvent ''m10'' ''u'')), ex_insolvent)"
  by (simp add: reachable_ex_insolvent ex_insolvent_available calculateStake_def placeBet_def)

subsection \<open>C4: payouts\<close>

text \<open>
  C4, as the code has it. For a bet with stake in [1,100] and probability in [0,1] the
  payout, \<^verbatim>\<open>Math.floor\<close> of the product \<open>stake * (1 + accuracy)\<close> computed in
  doubles, is never below the stake; when the probability has four decimals, as every
  stored one has, the payout is \<open>floor(stake * (1 + accuracy))\<close> or one less; a bet at
  probability 1 on a YES outcome (and at probability 0 on a NO outcome) pays twice the
  stake; a stake of 50 at probability 0.8 pays 90 on YES and 60 on NO.
\<close>

theorem payout_at_least_stake:
  assumes "1 \<le> bet_stake bet" "bet_stake bet \<le> 100"
    and "0 \<le> bet_probability bet" "bet_probability bet \<le> 1"
  shows "bet_stake bet \<le> payout_with fl outcome bet
       \<and> (bet_probability bet = of_int k / 10000 \<longrightarrow>
            payout outcome bet - 1 \<le> payout_with fl outcome bet \<and>
            payout_with fl outcome bet \<le> payout outcome bet)
       \<and> (bet_probability bet = 1 \<longrightarrow> payout_with fl True bet = 2 * bet_stake bet)
       \<and> (bet_probability bet = 0 \<longrightarrow> payout_with fl False bet = 2 * bet_stake bet)
       \<and> payout_with fl True \<lparr>bet_market_id = m, bet_user_id = u, bet_stake = 50, bet_probability = 4 / 5\<rparr> = 90
       \<and> payout_with fl False \<lparr>bet_market_id = m, bet_user_id = u, bet_stake = 50, bet_probability = 4 / 5\<rparr> = 60"
proof -
  let ?z = "fl (of_int (bet_stake bet)
             * fl (1 + (if outcome then fl (bet_probability bet) else fl (1 - fl (bet_probability bet)))))"
  have pz: "payout_with fl outcome bet = \<lfloor>?z\<rfloor>" by (simp add: payout_with_def Let_def)
  note b = payout_with_fl_bounds [OF assms, of outcome]
  have ge: "bet_stake bet \<le> payout_with fl outcome bet"
    using b(1) by (simp add: pz le_floor_iff)
  have near: "payout outcome bet - 1 \<le> payout_with fl outcome bet \<and>
              payout_with fl outcome bet \<le> payout outcome bet"
    if k: "bet_probability bet = of_int k / 10000"
  proof -
    define M where "M = bet_stake bet * (if outcome then 10000 + k else 20000 - k)"
    have e: "of_int (bet_stake bet) * (1 + bet_accuracy outcome bet) = (of_int M / 10000 :: rat)"
      by (simp add: M_def bet_accuracy_def k field_simps)
    have "(301 :: rat) / 2 ^ 46 < 1 / 10000" by simp
    with b(2) have "\<bar>?z - of_int M / 10000\<bar> < 1 / 10000" unfolding e by linarith
    from floor_near_grid [OF this] show ?thesis by (simp add: pz payout_def e)
  qed
  have one: "fl 1 = 1" and zero: "fl 0 = 0" and two: "fl 2 = 2"
    using fl_of_int [of 1] fl_of_int [of 2] by (simp_all add: fl_def)
  have dbl: "\<lfloor>fl (of_int (bet_stake bet) * 2)\<rfloor> = 2 * bet_stake bet"
  proof -
    have "0 \<le> 2 * bet_stake bet" "2 * bet_stake bet < 2 ^ 53" using assms(1,2) by simp_all
    from fl_of_int [OF this] have "fl (of_int (bet_stake bet) * 2) = of_int (2 * bet_stake bet)"
      by (simp add: mult.commute)
    then show ?thesis by (simp only: floor_of_int)
  qed
  have d1: "bet_probability bet = 1 \<longrightarrow> payout_with fl True bet = 2 * bet_stake bet"
    using dbl by (simp add: payout_with_def one two)
  have d0: "bet_probability bet = 0 \<longrightarrow> payout_with fl False bet = 2 * bet_stake bet"
    using dbl by (simp add: payout_with_def one two zero)
  have e1: "payout_with fl True \<lparr>bet_market_id = m, bet_user_id = u, bet_stake = 50, bet_probability = 4 / 5\<rparr> = 90"
    by (simp add: payout_with_def payout_examples)
  have e2: "payout_with fl False \<lparr>bet_market_id = m, bet_user_id = u, bet_stake = 50, bet_probability = 4 / 5\<rparr> = 60"
    by (simp add: payout_with_def payout_examples)
  show ?thesis using ge near d1 d0 e1 e2 by blast
qed

theorem payout_at_least_stake_witness:
  "40 \<le> payout_with fl False \<lparr>bet_market_id = ''m'', bet_user_id = ''a'', bet_stake = 40, bet_probability = 3 / 5\<rparr>
   \<and> payout False \<lparr>bet_market_id = ''m'', bet_user_id = ''a'', bet_stake = 40, bet_probability = 3 / 5\<rparr> - 1
       \<le> payout_with fl False \<lparr>bet_market_id = ''m'', bet_user_id = ''a'', bet_stake = 40, bet_probability = 3 / 5\<rparr>
   \<and> payout_with fl False \<lparr>bet_market_id = ''m'', bet_user_id = ''a'', bet_stake = 40, bet_probability = 3 / 5\<rparr>
       \<le> payout False \<lparr>bet_market_id = ''m'', bet_user_id = ''a'', bet_stake = 40, bet_probability = 3 / 5\<rparr>
   \<and> payout_with fl True \<lparr>bet_market_id = ''m'', bet_user_id = ''a'', bet_stake = 40, bet_probability = 1\<rparr> = 80"
  using payout_at_least_stake [of "\<lparr>bet_market_id = ''m'', bet_user_id = ''a'', bet_stake = 40, bet_probability = 3 / 5\<rparr>" False 6000]
    payout_at_least_stake [of "\<lparr>bet_market_id = ''m'', bet_user_id = ''a'', bet_stake = 40, bet_probability = 1\<rparr>" True 10000]
  by simp

text \<open>
  C4 as it is stated fails on the amount: for a stake of 45 at probability 0.4 and the
  outcome YES, \<open>floor(45 * (1 + 0.4))\<close> is 63, and the code pays 62, because the
  product it computes is the double 62.99999999999999.
\<close>

theorem payout_rounds_below_exact_floor:
  "payout_with fl True \<lparr>bet_market_id = ''m'', bet_user_id = ''a'', bet_stake = 45, bet_probability = 2 / 5\<rparr> = 62 \<and>
   \<lfloor>(45 :: rat) * (1 + 2 / 5)\<rfloor> = 63 \<and>
   payout True \<lparr>bet_market_id = ''m'', bet_user_id = ''a'', bet_stake = 45, bet_probability = 2 / 5\<rparr> = 63"
proof -
  have "payout_with fl True \<lparr>bet_market_id = ''m'', bet_user_id = ''a'', bet_stake = 45, bet_probability = 2 / 5\<rparr> = 62"
    by code_simp
  then show ?thesis by (simp add: payout_def bet_accuracy_def)
qed

subsection \<open>C5: the staked total and the open bets\<close>

text \<open>
  C5 asks that a user's \<^verbatim>\<open>total_staked\<close> is the sum of the stakes of the user's
  bets on unresolved markets. \<^verbatim>\<open>placeBet\<close> checks \<^verbatim>\<open>active\<close> and the deadline,
  not \<^verbatim>\<open>resolved\<close>: after the example market is resolved (which releases the 40
  of \<open>a\<close>), \<open>a\<close> can replace the bet by one of 50 while the deadline has not passed.
  The placement succeeds and books the difference to the released stake:
  \<^verbatim>\<open>total_staked\<close> becomes 10, and \<open>a\<close> has no bet on an unresolved market.
  Where no bet is placed on a resolved market and no query fails, the equation holds
  (lemma \<open>total_staked_is_open_stakes\<close>).
\<close>

theorem bet_on_resolved_market_breaks_total_staked:
  "reachable (snd (placeBet 4 ex_resolved ''m'' ''a'' 50 (3 / 5))) \<and>
   (\<exists>r. fst (placeBet 4 ex_resolved ''m'' ''a'' 50 (3 / 5)) = Inr r) \<and>
   map_option total_staked (users (snd (placeBet 4 ex_resolved ''m'' ''a'' 50 (3 / 5))) ''a'') = Some 10 \<and>
   open_stakes (snd (placeBet 4 ex_resolved ''m'' ''a'' 50 (3 / 5))) ''a'' = 0"
proof -
  have r: "reachable (snd (placeBet 4 ex_resolved ''m'' ''a'' 50 (3 / 5)))"
    by (rule reachable_place [OF reachable_ex_resolved prod.collapse [symmetric]])
  have e: "(\<exists>r. fst (placeBet 4 ex_resolved ''m'' ''a'' 50 (3 / 5)) = Inr r) \<and>
   map_option total_staked (users (snd (placeBet 4 ex_resolved ''m'' ''a'' 50 (3 / 5))) ''a'') = Some 10 \<and>
   open_stakes (snd (placeBet 4 ex_resolved ''m'' ''a'' 50 (3 / 5))) ''a'' = 0"
    using ex_resolved_eval
    by (simp add: ex_bet_b_eval placeBet_def getMarket_def getUser_def calculateStake_def
      getUserBet_def getMarketBets_def updateMarketProbability_def stake_total_def upsertBet_def
      overwrite_def updateMarket_def updateUser_def new_user_def open_stakes_def market_open_def
      Let_def)
  from r e show ?thesis by simp
qed

subsection \<open>C6: the two placement variants\<close>

text \<open>
  C6, as the code has it. Given the bets of a market, at most one per user and every
  stake at least 1 (the data model of both variants), every desired amount (clamped by
  \<^verbatim>\<open>calculateStake\<close>) and every probability: when the bettor has no bet among them,
  the in-memory variant and the database variant make the same call of
  \<^verbatim>\<open>updateMarketProbability\<close> and return the same number, whatever the rounding of
  the arithmetic; and in exact arithmetic the two return the same number also when
  the bettor replaces a bet.
\<close>

theorem placement_variants_agree:
  assumes "distinct (map bet_user_id market_bets)"
    and "list_all (\<lambda>b. 1 \<le> bet_stake b) market_bets"
  shows "(find (\<lambda>bet. bet_user_id bet = user_id) market_bets = None \<longrightarrow>
            placeBet_probability_memory_with rnd market_bets user_id (calculateStake desired_amount) probability =
            placeBet_probability_db_with rnd market_bets user_id (calculateStake desired_amount) probability)
       \<and> placeBet_probability_memory_with (\<lambda>x. x) market_bets user_id (calculateStake desired_amount) probability =
         placeBet_probability_db_with (\<lambda>x. x) market_bets user_id (calculateStake desired_amount) probability"
  using placement_variants_exact [OF assms]
  by (simp add: placeBet_probability_with_no_bet placeBet_probability_db_with_exact
      placeBet_probability_memory_with_exact)

theorem placement_variants_agree_witness:
  "placeBet_probability_memory_with fl (bets ex_bet_b) ''c'' (calculateStake 50) (fl (1 / 2)) =
   placeBet_probability_db_with fl (bets ex_bet_b) ''c'' (calculateStake 50) (fl (1 / 2)) \<and>
   placeBet_probability_memory_with (\<lambda>x. x) (bets ex_bet_b) ''a'' (calculateStake 50) (1 / 2) = Some (79 / 110) \<and>
   placeBet_probability_db_with (\<lambda>x. x) (bets ex_bet_b) ''a'' (calculateStake 50) (1 / 2) = Some (79 / 110)"
proof -
  have "placeBet_probability_db (bets ex_bet_b) ''a'' (calculateStake 50) (1 / 2) = Some (79 / 110)"
    by (simp add: ex_bet_b_eval placeBet_probability_db_def updateMarketProbability_def
        stake_total_def calculateStake_def)
  then show ?thesis
    using placement_variants_agree [of "bets ex_bet_b" "''c''" fl 50 "fl (1 / 2)"]
      placement_variants_agree [of "bets ex_bet_b" "''a''" fl 50 "1 / 2"]
    by (simp add: ex_bet_b_eval placeBet_probability_db_with_exact)
qed

text \<open>
  C6 as it is stated fails in doubles when the bettor replaces a bet. On a market
  whose only bet is 3 at 0.05 by \<open>a\<close>, when \<open>a\<close> bets 3 at 0.05 again, the database
  variant finds no other bet and returns 0.05, the double
  \<open>3602879701896397 / 2 ^ 56\<close>; the in-memory variant returns \<open>(3 * 0.05) / 3\<close>, which
  is the double 0.05000000000000001, \<open>7205759403792795 / 2 ^ 57\<close>.
\<close>

theorem placement_variants_differ_in_doubles:
  "placeBet_probability_memory_with fl
      [\<lparr>bet_market_id = ''m'', bet_user_id = ''a'', bet_stake = 3, bet_probability = fl (1 / 20)\<rparr>]
      ''a'' (calculateStake 3) (fl (1 / 20)) = Some (7205759403792795 / 144115188075855872) \<and>
   placeBet_probability_db_with fl
      [\<lparr>bet_market_id = ''m'', bet_user_id = ''a'', bet_stake = 3, bet_probability = fl (1 / 20)\<rparr>]
      ''a'' (calculateStake 3) (fl (1 / 20)) = Some (3602879701896397 / 72057594037927936) \<and>
   placeBet_probability_memory_with fl
      [\<lparr>bet_market_id = ''m'', bet_user_id = ''a'', bet_stake = 3, bet_probability = fl (1 / 20)\<rparr>]
      ''a'' (calculateStake 3) (fl (1 / 20)) \<noteq>
   placeBet_probability_db_with fl
      [\<lparr>bet_market_id = ''m'', bet_user_id = ''a'', bet_stake = 3, bet_probability = fl (1 / 20)\<rparr>]
      ''a'' (calculateStake 3) (fl (1 / 20))"
  by code_simp

subsection \<open>C7: replacing a bet by itself\<close>




subsection \<open>C8: a bet at exactly one half\<close>

text \<open>
  C8. A bet with probability exactly 0.5 is not correct under either outcome; when
  it is settled, the user's \<^verbatim>\<open>bets_won\<close> stays, \<^verbatim>\<open>bets_placed\<close> grows by one and
  \<^verbatim>\<open>prediction_streak\<close> becomes 0.
\<close>

theorem even_bet_not_correct:
  assumes "bet_probability bet = 1 / 2"
    and "users st (bet_user_id bet) = Some user"
    and "\<not> fails (UpdateUser (bet_user_id bet))"
  shows "\<not> wasCorrect outcome bet \<and>
         (\<exists>row. users (pay_bet fails outcome st bet) (bet_user_id bet) = Some row \<and>
            bets_won row = bets_won user \<and>
            bets_placed row = bets_placed user + 1 \<and>
            prediction_streak row = 0)"
  using assms
  by (simp add: wasCorrect_def pay_bet_def getUser_def updateUser_def settle_user_def Let_def)

theorem even_bet_not_correct_witness:
  "\<not> wasCorrect True \<lparr>bet_market_id = ''m'', bet_user_id = ''a'', bet_stake = 40, bet_probability = 1 / 2\<rparr> \<and>
   map_option prediction_streak
     (users (pay_bet (\<lambda>q. False) True
        \<lparr>users = [''a'' \<mapsto> new_user\<lparr>total_staked := 40, prediction_streak := 3\<rparr>], markets = Map.empty, bets = []\<rparr>
        \<lparr>bet_market_id = ''m'', bet_user_id = ''a'', bet_stake = 40, bet_probability = 1 / 2\<rparr>) ''a'') = Some 0"
  using even_bet_not_correct [of "\<lparr>bet_market_id = ''m'', bet_user_id = ''a'', bet_stake = 40, bet_probability = 1 / 2\<rparr>"
      "\<lparr>users = [''a'' \<mapsto> new_user\<lparr>total_staked := 40, prediction_streak := 3\<rparr>], markets = Map.empty, bets = []\<rparr>"
      "new_user\<lparr>total_staked := 40, prediction_streak := 3\<rparr>" "\<lambda>q. False" True]
  by auto

subsection \<open>C9: a deadline that is not in the future\<close>

text \<open>
  C9 asks that a deadline which is not strictly in the future is refused. The create
  branch refuses with "Deadline must be in the future" only when
  \<^verbatim>\<open>deadline < new Date()\<close>: a deadline equal to the current instant passes, and
  the market is stored with it.
\<close>

theorem deadline_now_accepted:
  "fst (predict_create 10 initial_state ''m'' ''q'' ''c'' 10) = Inr ''m'' \<and>
   map_option deadline (markets (snd (predict_create 10 initial_state ''m'' ''q'' ''c'' 10)) ''m'') = Some 10"
  by (simp add: predict_create_def createMarket_def initial_state_def updateUser_def)

subsection \<open>C10: the market probability stays in the unit interval\<close>

text \<open>
  C10. For parallel lists of non-negative stakes and of probabilities in [0,1], a new
  stake of at least 1 and a new probability in [0,1], \<^verbatim>\<open>updateMarketProbability\<close>
  with zero correction terms returns a number in [0,1].
\<close>

theorem updateMarketProbability_unit_interval:
  assumes "length probs = length stakes" "\<forall>s\<in>set stakes. 0 \<le> s"
    "\<forall>p\<in>set probs. 0 \<le> p \<and> p \<le> 1" "1 \<le> newStake" "0 \<le> newProb" "newProb \<le> 1"
  shows "\<exists>r. updateMarketProbability stakes probs newStake newProb 0 0 = Some r \<and> 0 \<le> r \<and> r \<le> 1"
  using assms by (rule updateMarketProbability_bounds)

theorem updateMarketProbability_unit_interval_witness:
  "length [3 / 5, 9 / 10 :: rat] = length [40, 60 :: int] \<and>
   (\<exists>r. updateMarketProbability [40, 60] [3 / 5, 9 / 10] 50 (1 / 2) 0 0 = Some r \<and> 0 \<le> r \<and> r \<le> 1)"
  using updateMarketProbability_unit_interval [of "[3 / 5, 9 / 10]" "[40, 60]" 50 "1 / 2"]
  by simp

end
